theory Spec2Isabelle
  imports Complex_Main "HOL-Library.Sublist"
begin

section \<open>Conventions of the embedding\<close>

text \<open>
  The signal-processing and analysis modules of rPPG Pro (\<^verbatim>\<open>signal.js\<close>,
  \<^verbatim>\<open>analysis.js\<close>) are embedded function by function.

  \<^item> A JavaScript number that holds a sample, a power or a rate is a \<^typ>\<open>real\<close>:
    rounding error and overflow of IEEE doubles are not modelled, and the decimal
    constants of the source (0.67, 3.33, ...) are the rationals they denote.  The
    sections on doubles below embed the transform, the quality assessor and the
    percentages of the harmonic analysis a second time with overflow, the infinities
    and NaN, for waveforms on which the source leaves the reals.
  \<^item> Array lengths, bin indices and loop counters are \<^typ>\<open>nat\<close> or \<^typ>\<open>int\<close>;
    the two 32-bit shifts of the source wrap as they do there.
  \<^item> A call that never returns is \<open>None\<close>; a JavaScript \<^verbatim>\<open>null\<close> result is the
    constructor \<open>Null\<close>.
  \<^item> Where the source can reach a non-finite value from finite inputs (a division by
    zero, a logarithm of zero), the branch its next comparison takes is written out,
    with the trace in the text before the definition.  A frame rate is positive; the
    value of an estimator at \<open>fps = 0\<close> is modelled where the source returns
    something other than NaN.
  \<^item> \<^verbatim>\<open>Math.floor(len * 0.25)\<close> and \<^verbatim>\<open>Math.floor(len * 0.75)\<close> on an array length
    are \<open>len div 4\<close> and \<open>3 * len div 4\<close> (both products are exact in doubles).
\<close>

datatype 'a nullable = Null | Value 'a

section \<open>Shared helpers (signal.js 85-114)\<close>

text \<open>\<^verbatim>\<open>Math.round\<close>: the nearest integer, halves rounded up.\<close>

definition js_round :: "real \<Rightarrow> int" where
  "js_round x = \<lfloor>x + 1/2\<rfloor>"

text \<open>
  The value a 32-bit shift leaves: \<^verbatim>\<open>p <<= 1\<close> and \<^verbatim>\<open>len <<= 1\<close> double a signed
  32-bit integer and wrap.
\<close>

definition to_int32 :: "int \<Rightarrow> int" where
  "to_int32 x = (x + 2147483648) mod 4294967296 - 2147483648"

text \<open>
  \<^verbatim>\<open>function nextPow2(n) { let p = 1; while (p < n) p <<= 1; return p; }\<close>
  The loop need not end (after \<open>2^30\<close> the shift wraps to \<open>-2^31\<close>, then to 0).
\<close>

partial_function (option) nextPow2_loop :: "int \<Rightarrow> int \<Rightarrow> int option" where
  "nextPow2_loop p n = (if p < n then nextPow2_loop (to_int32 (p * 2)) n else Some p)"

definition nextPow2 :: "nat \<Rightarrow> nat option" where
  "nextPow2 n = map_option nat (nextPow2_loop 1 (int n))"

text \<open>
  The in-place transform \<^verbatim>\<open>fft(re, im, n)\<close> works on the pair of arrays.  First the
  bit-reversal permutation: the inner \<^verbatim>\<open>while (j & bit)\<close> loop, one step of the
  \<^verbatim>\<open>for (i = 1, j = 0; i < n; i++)\<close> loop, and the loop itself.
\<close>

type_synonym arrays = "real list \<times> real list"

function bitrev_carry :: "nat \<Rightarrow> nat \<Rightarrow> nat \<times> nat" where
  "bitrev_carry j bt =
     (if and j bt \<noteq> 0 then bitrev_carry (xor j bt) (bt div 2) else (j, bt))"
  by pat_completeness auto
termination
proof (relation "measure (\<lambda>(j, bt). bt)")
  show "wf (measure (\<lambda>(j, bt). bt))" by simp
next
  fix j bt :: nat
  assume "and j bt \<noteq> 0"
  then have "bt \<noteq> 0" by (cases "bt = 0") simp_all
  then show "((xor j bt, bt div 2), (j, bt)) \<in> measure (\<lambda>(j, bt). bt)" by simp
qed

definition swap :: "real list \<Rightarrow> nat \<Rightarrow> nat \<Rightarrow> real list" where
  "swap xs i j = xs[i := xs ! j, j := xs ! i]"

definition bitrev_step :: "nat \<Rightarrow> nat \<times> arrays \<Rightarrow> nat \<Rightarrow> nat \<times> arrays" where
  "bitrev_step n st i =
     (case st of (j, re, im) \<Rightarrow>
        (case bitrev_carry j (n div 2) of (j1, bt) \<Rightarrow>
           let j2 = xor j1 bt
           in if i < j2 then (j2, swap re i j2, swap im i j2) else (j2, re, im)))"

definition bit_reversal :: "nat \<Rightarrow> arrays \<Rightarrow> arrays" where
  "bit_reversal n a = snd (foldl (bitrev_step n) (0, a) [1..<n])"

text \<open>
  One butterfly (the body of the \<^verbatim>\<open>j\<close> loop) on the block that starts at \<open>i\<close>, with
  the running twiddle factor \<open>(curRe, curIm)\<close>; then the \<open>j\<close> loop over one block, the
  \<open>i\<close> loop over the blocks of one stage, and the stage loop
  \<^verbatim>\<open>for (len = 2; len <= n; len <<= 1)\<close>.
\<close>

definition butterfly ::
  "nat \<Rightarrow> nat \<Rightarrow> real \<times> real \<Rightarrow> (real \<times> real) \<times> arrays \<Rightarrow> nat
     \<Rightarrow> (real \<times> real) \<times> arrays" where
  "butterfly len i w st j =
     (case st of ((curRe, curIm), re, im) \<Rightarrow>
        let hi = i + j + len div 2; lo = i + j;
            tRe = curRe * re ! hi - curIm * im ! hi;
            tIm = curRe * im ! hi + curIm * re ! hi;
            re1 = re[hi := re ! lo - tRe];
            im1 = im[hi := im ! lo - tIm];
            re2 = re1[lo := re1 ! lo + tRe];
            im2 = im1[lo := im1 ! lo + tIm]
        in ((curRe * fst w - curIm * snd w, curRe * snd w + curIm * fst w), re2, im2))"

definition fft_block :: "nat \<Rightarrow> real \<times> real \<Rightarrow> arrays \<Rightarrow> nat \<Rightarrow> arrays" where
  "fft_block len w a i = snd (foldl (butterfly len i w) ((1, 0), a) [0..<len div 2])"

definition fft_stage :: "nat \<Rightarrow> nat \<Rightarrow> arrays \<Rightarrow> arrays" where
  "fft_stage len n a =
     (let ang = - 2 * pi / real len
      in foldl (fft_block len (cos ang, sin ang)) a
           (map (\<lambda>m. m * len) [0..<(n + len - 1) div len]))"

text \<open>
  The stage loop doubles \<open>len\<close> with a 32-bit shift.  When the shift wraps to a
  non-positive \<open>len\<close> that still satisfies \<open>len \<le> n\<close>, the block loop
  \<^verbatim>\<open>for (i = 0; i < n; i += len)\<close> never leaves \<open>i < n\<close>: the call does not return.
\<close>

partial_function (option) fft_stages :: "int \<Rightarrow> nat \<Rightarrow> arrays \<Rightarrow> arrays option" where
  "fft_stages len n a =
     (if len \<le> int n
      then (if len \<le> 0 then None
            else fft_stages (to_int32 (len * 2)) n (fft_stage (nat len) n a))
      else Some a)"

definition fft :: "nat \<Rightarrow> arrays \<Rightarrow> arrays option" where
  "fft n a = fft_stages 2 n (bit_reversal n a)"

text \<open>
  The Hann window and the zero-padded buffers every spectral consumer builds before it
  calls \<^verbatim>\<open>fft\<close> (signal.js 52-59, 316-322; analysis.js 80-86, 152-159):
  \<^verbatim>\<open>w = 0.5 * (1 - Math.cos(2 * Math.PI * i / (signal.length - 1)))\<close>.
  For a one-sample signal the source computes \<open>0/0\<close>, a NaN, as its only sample.  That
  sample is bin 0 of a one-point transform, which the heart-rate estimators either never
  read or only test with \<^verbatim>\<open>mag > maxMag\<close>; the test is false for NaN as it is for 0, the
  value the model stores.
\<close>

definition hann :: "nat \<Rightarrow> nat \<Rightarrow> real" where
  "hann len i =
     (if len = 1 then 0 else 0.5 * (1 - cos (2 * pi * real i / (real len - 1))))"

definition windowed :: "real list \<Rightarrow> nat \<Rightarrow> arrays" where
  "windowed signal n =
     (map (\<lambda>i. signal ! i * hann (length signal) i) [0..<length signal]
        @ replicate (n - length signal) 0,
      replicate n 0)"

definition spectrum :: "real list \<Rightarrow> nat \<Rightarrow> arrays option" where
  "spectrum signal n = fft n (windowed signal n)"

text \<open>
  \<^verbatim>\<open>re[i] * re[i] + im[i] * im[i]\<close> at an integer bin.  A read outside the array is
  \<^verbatim>\<open>undefined\<close>, the power a NaN, and every comparison with it false: \<open>None\<close>.
\<close>

definition power_at :: "arrays \<Rightarrow> int \<Rightarrow> real option" where
  "power_at a i =
     (if 0 \<le> i \<and> nat i < length (fst a)
      then Some (fst a ! nat i * fst a ! nat i + snd a ! nat i * snd a ! nat i)
      else None)"

text \<open>
  The peak scan \<^verbatim>\<open>if (mag > maxMag) { maxMag = mag; peakBin = i; }\<close>, shared by the
  estimators, over the bins \<open>lo, lo + 1, \<dots>, hi\<close>.
\<close>

definition scan_step :: "(int \<Rightarrow> real option) \<Rightarrow> real \<times> int \<Rightarrow> int \<Rightarrow> real \<times> int" where
  "scan_step mag st i =
     (case mag i of
        Some m \<Rightarrow> if m > fst st then (m, i) else st
      | None \<Rightarrow> st)"

definition peak_scan :: "(int \<Rightarrow> real option) \<Rightarrow> int \<Rightarrow> int \<Rightarrow> int \<Rightarrow> real \<times> int" where
  "peak_scan mag peak0 lo hi = foldl (scan_step mag) (0, peak0) [lo..hi]"

section \<open>Single-window heart-rate estimator (\<^verbatim>\<open>fftHeartRate\<close>, signal.js 50-83)\<close>

text \<open>
  The part after the transform.  The scan runs while \<^verbatim>\<open>i <= Math.min(maxBin, n / 2)\<close>;
  for an integer \<open>i\<close> that is \<open>i \<le> min maxBin (n div 2)\<close>.  \<open>fftRefinedBin\<close> is the
  source's \<^verbatim>\<open>refinedBin\<close> (or \<^verbatim>\<open>peakBin\<close> on the path without interpolation); a
  non-finite \<^verbatim>\<open>delta\<close> arises exactly from a zero denominator.
\<close>

definition fftPeakBin :: "nat \<Rightarrow> real \<Rightarrow> arrays \<Rightarrow> int" where
  "fftPeakBin n fps a =
     (let minBin = \<lfloor>0.67 * real n / fps\<rfloor>;
          maxBin = \<lceil>3.33 * real n / fps\<rceil>
      in snd (peak_scan (power_at a) minBin minBin (min maxBin (int (n div 2)))))"

definition parabolic_delta :: "real \<Rightarrow> real \<Rightarrow> real \<Rightarrow> real" where
  "parabolic_delta a b c =
     (if 2 * (a - 2 * b + c) = 0 then 0 else (a - c) / (2 * (a - 2 * b + c)))"

definition fftRefinedBin :: "nat \<Rightarrow> arrays \<Rightarrow> int \<Rightarrow> real" where
  "fftRefinedBin n a k =
     (if k > 0 \<and> real_of_int k < real n / 2
      then (case (power_at a (k - 1), power_at a k, power_at a (k + 1)) of
              (Some x, Some y, Some z) \<Rightarrow> real_of_int k + parabolic_delta x y z
            | _ \<Rightarrow> real_of_int k)
      else real_of_int k)"

definition fftHeartRate :: "real list \<Rightarrow> real \<Rightarrow> real option" where
  "fftHeartRate signal fps =
     (case nextPow2 (length signal) of
        None \<Rightarrow> None
      | Some n \<Rightarrow>
          (case spectrum signal n of
             None \<Rightarrow> None
           | Some a \<Rightarrow>
               Some (fftRefinedBin n a (fftPeakBin n fps a) * fps / real n * 60)))"

section \<open>Welch estimator (\<^verbatim>\<open>welchFFTHeartRate\<close>, signal.js 255-306)\<close>

text \<open>
  The segmentation (lines 256-259).  \<^verbatim>\<open>nSegs\<close> is
  \<^verbatim>\<open>Math.floor((signal.length - segLen) / step) + 1\<close>; \<open>segLen\<close> never exceeds the
  length, so the quotient is a natural-number division.  For an empty signal \<open>step\<close>
  is 0 and the quotient \<open>0/0\<close> is NaN: \<open>nSegs = None\<close>, for which both
  \<^verbatim>\<open>nSegs < 1\<close> and \<^verbatim>\<open>s < nSegs\<close> are false.
\<close>

record segmentation =
  segLen :: nat
  step :: nat
  nSegs :: "nat option"

definition welchSegmentation :: "nat \<Rightarrow> segmentation option" where
  "welchSegmentation len =
     (case nextPow2 len of
        None \<Rightarrow> None
      | Some p \<Rightarrow>
          let sl = min p len;
              overlap = 3 * sl div 4;
              st = sl - overlap
          in Some \<lparr>segLen = sl, step = st,
                   nSegs = (if st = 0 then None else Some ((len - sl) div st + 1))\<rparr>)"

text \<open>
  The windowed, zero-padded buffers of the segment at \<open>offset\<close> (lines 268-275): the
  loop runs while \<^verbatim>\<open>i < segLen && (offset + i) < signal.length\<close>.
\<close>

definition segment_buffers :: "real list \<Rightarrow> nat \<Rightarrow> nat \<Rightarrow> nat \<Rightarrow> arrays" where
  "segment_buffers signal sl offset n =
     (let m = min sl (length signal - offset)
      in (map (\<lambda>i. signal ! (offset + i) * hann sl i) [0..<m] @ replicate (n - m) 0,
          replicate n 0))"

definition bin_power :: "arrays \<Rightarrow> nat \<Rightarrow> real" where
  "bin_power a i = fst a ! i * fst a ! i + snd a ! i * snd a ! i"

text \<open>
  The segment loop (lines 266-283): each segment adds its power spectrum, divided by
  \<open>nSegs\<close>, to \<^verbatim>\<open>avgSpectrum\<close>, whose \<open>n div 2 + 1\<close> entries start at 0.
\<close>

fun welch_accumulate ::
  "real list \<Rightarrow> nat \<Rightarrow> nat \<Rightarrow> nat \<Rightarrow> nat \<Rightarrow> real list \<Rightarrow> nat list \<Rightarrow> real list option" where
  "welch_accumulate signal sl st k n avg [] = Some avg"
| "welch_accumulate signal sl st k n avg (s # ss) =
     (case fft n (segment_buffers signal sl (s * st) n) of
        None \<Rightarrow> None
      | Some a \<Rightarrow>
          welch_accumulate signal sl st k n
            (map (\<lambda>i. avg ! i + bin_power a i / real k) [0..<n div 2 + 1]) ss)"

definition avg_at :: "real list \<Rightarrow> int \<Rightarrow> real option" where
  "avg_at avg i = (if 0 \<le> i \<and> nat i < length avg then Some (avg ! nat i) else None)"

text \<open>
  The search band and the peak (lines 286-292), then the interpolation (lines 295-305).
  \<^verbatim>\<open>maxBin\<close> is \<^verbatim>\<open>Math.min(Math.ceil(3.33 * n / fps), n / 2)\<close>, a half-integer when
  \<open>n = 1\<close>.  \<open>welchRefinedBin\<close> is the bin value the source multiplies by
  \<^verbatim>\<open>fps / n * 60\<close>: \<^verbatim>\<open>peakBin + delta\<close> under the three guards, \<^verbatim>\<open>peakBin\<close> otherwise.
\<close>

definition welchMinBin :: "nat \<Rightarrow> real \<Rightarrow> int" where
  "welchMinBin n fps = max 1 \<lfloor>0.7 * real n / fps\<rfloor>"

definition welchMaxBin :: "nat \<Rightarrow> real \<Rightarrow> real" where
  "welchMaxBin n fps = min (real_of_int \<lceil>3.33 * real n / fps\<rceil>) (real n / 2)"

definition welchPeakBin :: "nat \<Rightarrow> real \<Rightarrow> real list \<Rightarrow> int" where
  "welchPeakBin n fps avg =
     snd (peak_scan (avg_at avg) (welchMinBin n fps) (welchMinBin n fps) \<lfloor>welchMaxBin n fps\<rfloor>)"

definition welchRefinedBin :: "real list \<Rightarrow> int \<Rightarrow> real \<Rightarrow> int \<Rightarrow> real" where
  "welchRefinedBin avg minBin maxBin peakBin =
     (if peakBin > minBin \<and> real_of_int peakBin < maxBin
      then (case (avg_at avg (peakBin - 1), avg_at avg peakBin, avg_at avg (peakBin + 1)) of
              (Some a, Some b, Some c) \<Rightarrow>
                let denom = 2 * (a - 2 * b + c)
                in if denom \<noteq> 0
                   then let delta = (a - c) / denom
                        in if \<bar>delta\<bar> < 1 then real_of_int peakBin + delta
                           else real_of_int peakBin
                   else real_of_int peakBin
            | _ \<Rightarrow> real_of_int peakBin)
      else real_of_int peakBin)"

definition welchEstimate :: "nat \<Rightarrow> real \<Rightarrow> real list \<Rightarrow> real" where
  "welchEstimate n fps avg =
     welchRefinedBin avg (welchMinBin n fps) (welchMaxBin n fps) (welchPeakBin n fps avg)
       * fps / real n * 60"

definition welchFFTHeartRate :: "real list \<Rightarrow> real \<Rightarrow> real option" where
  "welchFFTHeartRate signal fps =
     (case welchSegmentation (length signal) of
        None \<Rightarrow> None
      | Some sg \<Rightarrow>
          if (case nSegs sg of Some k \<Rightarrow> k < 1 | None \<Rightarrow> False)
          then fftHeartRate signal fps
          else (case nextPow2 (segLen sg) of
                  None \<Rightarrow> None
                | Some n \<Rightarrow>
                    (case welch_accumulate signal (segLen sg) (step sg)
                            (case nSegs sg of Some k \<Rightarrow> k | None \<Rightarrow> 0) n
                            (replicate (n div 2 + 1) 0)
                            [0..<(case nSegs sg of Some k \<Rightarrow> k | None \<Rightarrow> 0)] of
                       None \<Rightarrow> None
                     | Some avg \<Rightarrow> Some (welchEstimate n fps avg))))"

section \<open>Quality assessor (\<^verbatim>\<open>assessSignalQuality\<close>, \<^verbatim>\<open>arrayStd\<close>, signal.js 312-364)\<close>

text \<open>
  The \<^verbatim>\<open>snr\<close> of the source is \<open>-Infinity\<close> when the band holds no power and the rest
  of the spectrum does (\<^verbatim>\<open>Math.log10(0)\<close>); the field keeps that value.
\<close>

datatype decibel = Db real | MinusInfinity

record quality_score =
  score :: int
  usable :: bool
  snr :: decibel

definition arrayStd :: "real list \<Rightarrow> real" where
  "arrayStd arr =
     (let m = sum_list arr / real (length arr)
      in sqrt (sum_list (map (\<lambda>v. (v - m)\<^sup>2) arr) / real (length arr)))"

text \<open>
  The band (lines 326-327) and the accumulation loop over the bins \<open>1..n/2\<close> (lines
  329-337).  With \<open>fps = 0\<close> the source has \<open>hrMin = Infinity\<close>: no bin is in the band.
\<close>

definition hrMin :: "nat \<Rightarrow> real \<Rightarrow> int" where
  "hrMin n fps = max 1 \<lfloor>0.7 * real n / fps\<rfloor>"

definition hrMax :: "nat \<Rightarrow> real \<Rightarrow> int" where
  "hrMax n fps = min \<lceil>3.33 * real n / fps\<rceil> (int (n div 2))"

definition in_band :: "nat \<Rightarrow> real \<Rightarrow> nat \<Rightarrow> bool" where
  "in_band n fps i = (fps \<noteq> 0 \<and> int i \<ge> hrMin n fps \<and> int i \<le> hrMax n fps)"

definition power_step :: "nat \<Rightarrow> real \<Rightarrow> arrays \<Rightarrow> real \<times> real \<times> real \<Rightarrow> nat \<Rightarrow> real \<times> real \<times> real" where
  "power_step n fps a acc i =
     (case acc of (signalPower, totalPower, peakPower) \<Rightarrow>
        let p = bin_power a i
        in if in_band n fps i
           then (signalPower + p, totalPower + p, if p > peakPower then p else peakPower)
           else (signalPower, totalPower + p, peakPower))"

definition band_powers :: "nat \<Rightarrow> real \<Rightarrow> arrays \<Rightarrow> real \<times> real \<times> real" where
  "band_powers n fps a = foldl (power_step n fps a) (0, 0, 0) [1..<n div 2 + 1]"

text \<open>
  \<^verbatim>\<open>snr = noisePower > 0 ? 10 * Math.log10(signalPower / noisePower) : 0\<close> (line 340).
  The band power is a sum of squares; a quotient that is not positive is 0, whose
  logarithm is \<open>-Infinity\<close>.
\<close>

definition snr_of :: "real \<Rightarrow> real \<Rightarrow> decibel" where
  "snr_of signalPower noisePower =
     (if noisePower > 0
      then (if signalPower / noisePower > 0
            then Db (10 * log 10 (signalPower / noisePower))
            else MinusInfinity)
      else Db 0)"

text \<open>
  \<^verbatim>\<open>par = avgHRPower > 0 ? peakPower / avgHRPower : 0\<close> (lines 343-344), where
  \<^verbatim>\<open>avgHRPower = signalPower / (hrMax - hrMin + 1)\<close>.  A zero width divides the zero
  power of an empty band (NaN), and \<open>fps = 0\<close> gives an infinite width: in both cases
  the test \<^verbatim>\<open>avgHRPower > 0\<close> is false.
\<close>

definition par_of :: "nat \<Rightarrow> real \<Rightarrow> real \<Rightarrow> real \<Rightarrow> real" where
  "par_of n fps signalPower peakPower =
     (let width = real_of_int (hrMax n fps - hrMin n fps + 1)
      in if fps \<noteq> 0 \<and> width \<noteq> 0 \<and> signalPower / width > 0
         then peakPower / (signalPower / width)
         else 0)"

text \<open>
  The stationarity ratio (lines 351-355), over the reals.  Over doubles both standard
  deviations can be \<open>Infinity\<close> and the ratio NaN; \<open>stationarity_d\<close> below has that
  case.
\<close>

definition stationarity_of :: "real list \<Rightarrow> real" where
  "stationarity_of signal =
     (let half = length signal div 2;
          std1 = arrayStd (take half signal);
          std2 = arrayStd (drop half signal)
      in if std1 > 0 then min std1 std2 / max std1 std2 else 0)"

text \<open>The score (lines 346-358), from the transform \<open>a\<close> of the windowed signal.\<close>

definition quality_of :: "real list \<Rightarrow> real \<Rightarrow> nat \<Rightarrow> arrays \<Rightarrow> quality_score" where
  "quality_of signal fps n a =
     (case band_powers n fps a of (signalPower, totalPower, peakPower) \<Rightarrow>
        let noisePower = totalPower - signalPower;
            snrv = snr_of signalPower noisePower;
            par = par_of n fps signalPower peakPower;
            s1 = (case snrv of Db x \<Rightarrow> if x > 0 then min 40 (x * 8) else 0
                  | MinusInfinity \<Rightarrow> 0);
            s2 = s1 + (if par > 2 then min 35 ((par - 2) * 7) else 0);
            s3 = s2 + stationarity_of signal * 25;
            sc = min 99 (max 0 (js_round s3))
        in \<lparr>score = sc, usable = (sc > 25),
            snr = (case snrv of Db x \<Rightarrow> Db (real_of_int (js_round (x * 10)) / 10)
                   | MinusInfinity \<Rightarrow> MinusInfinity)\<rparr>)"

definition assessSignalQuality :: "real list \<Rightarrow> real \<Rightarrow> quality_score option" where
  "assessSignalQuality signal fps =
     (if length signal < 60 then Some \<lparr>score = 0, usable = False, snr = Db 0\<rparr>
      else (case nextPow2 (length signal) of
              None \<Rightarrow> None
            | Some n \<Rightarrow>
                (case spectrum signal n of
                   None \<Rightarrow> None
                 | Some a \<Rightarrow> Some (quality_of signal fps n a))))"

section \<open>Pulse extractors and conditioning (signal.js 8-45, 120-144, 207-248, 417-448)\<close>










section \<open>Fusion policy (\<^verbatim>\<open>fusedHeartRate\<close>, signal.js 453-484)\<close>






section \<open>HRV metrics (\<^verbatim>\<open>calculateHRVMetrics\<close>, analysis.js 7-35)\<close>

record hrv_metrics =
  sdnn :: int
  rmssd :: int
  pnn50 :: real
  lfHfRatio :: real
  meanRR :: int

definition calculateHRVMetrics :: "real list \<Rightarrow> hrv_metrics nullable" where
  "calculateHRVMetrics rrIntervals =
     (if length rrIntervals < 3 then Null
      else let n = length rrIntervals;
               mean = sum_list rrIntervals / real n;
               variance = sum_list (map (\<lambda>v. (v - mean)\<^sup>2) rrIntervals) / real n;
               sd = sqrt variance;
               diffs = map (\<lambda>i. rrIntervals ! i - rrIntervals ! (i - 1)) [1..<n];
               sumSqDiff = sum_list (map (\<lambda>d. d\<^sup>2) diffs);
               rms = sqrt (sumSqDiff / real (n - 1));
               nn50 = length (filter (\<lambda>d. \<bar>d\<bar> > 50) diffs);
               p50 = real nn50 / real (n - 1) * 100;
               lfHfProxy = (if rms > 0 then sd / rms else 1)
           in Value \<lparr>sdnn = js_round sd, rmssd = js_round rms,
                      pnn50 = real_of_int (js_round (p50 * 10)) / 10,
                      lfHfRatio = real_of_int (js_round (lfHfProxy * 100)) / 100,
                      meanRR = js_round mean\<rparr>)"

section \<open>Breathing rate (\<^verbatim>\<open>estimateBreathingRate\<close>, analysis.js 75-103)\<close>

text \<open>
  The part after the transform (lines 89-102), for \<open>n \<ge> 2\<close>.  The scan reads the bins
  from \<^verbatim>\<open>Math.max(1, minBin)\<close> to \<^verbatim>\<open>Math.min(maxBin, n / 2)\<close>, all inside the arrays.
  With \<open>fps = 0\<close> the source has \<open>minBin = peakBin = Infinity\<close>, scans nothing, and
  \<open>Infinity * 0 / n\<close> is NaN, which fails both range tests: the result is \<^verbatim>\<open>null\<close>.
\<close>

definition breathingRate_of :: "nat \<Rightarrow> real \<Rightarrow> arrays \<Rightarrow> int nullable" where
  "breathingRate_of n fps a =
     (if fps = 0 then Null
      else let minBin = \<lfloor>0.15 * real n / fps\<rfloor>;
               maxBin = \<lceil>0.5 * real n / fps\<rceil>;
               peakBin = snd (peak_scan (power_at a) minBin (max 1 minBin)
                                (min maxBin (int (n div 2))));
               breathHz = real_of_int peakBin * fps / real n;
               breathsPerMin = breathHz * 60
           in if breathsPerMin \<ge> 8 \<and> breathsPerMin \<le> 35
              then Value (js_round breathsPerMin) else Null)"

definition estimateBreathingRate :: "real list \<Rightarrow> real \<Rightarrow> int nullable option" where
  "estimateBreathingRate signal fps =
     (if length signal < 90 then Some Null
      else (case nextPow2 (length signal) of
              None \<Rightarrow> None
            | Some n \<Rightarrow>
                (case spectrum signal n of
                   None \<Rightarrow> None
                 | Some a \<Rightarrow> Some (breathingRate_of n fps a))))"

section \<open>Pulse harmonic analysis (\<^verbatim>\<open>pulseHarmonicAnalysis\<close>, analysis.js 148-331)\<close>

text \<open>
  The status tags and constitution labels are Chinese strings in the source; the
  constructors name them in source order.  Status (lines 256-266): above range
  (\<open>Excess\<close>), within range (\<open>Normal\<close>), below range (\<open>Weak\<close>), far below range
  (\<open>Deficient\<close>), slightly above range (\<open>Elevated\<close>).  Constitution (lines 288-317):
  the labels of the seven branches of the cascade, first to last.  The display
  attributes copied from \<^verbatim>\<open>meridians[h]\<close> (name, organ, colour, emoji), the emoji of the
  constitution and the note are determined by the index \<open>h\<close>, the constitution and the
  mode, and are left out.
\<close>

datatype status = Excess | Normal | Weak | Deficient | Elevated

datatype constitution =
    HeartSpleenDeficiency
  | LiverQiExcess
  | KidneyQiDeficiency
  | SpleenQiWeakness
  | LungQiDeficiency
  | Balanced
  | SlightDeviation

text \<open>
  A harmonic record.  \<open>normalized\<close> is \<^verbatim>\<open>amplitude / harmonics[0].amplitude\<close>, which is
  not finite when the amplitude of C0 is 0: \<open>None\<close>.  \<open>expectedRange\<close> holds the bounds
  the source prints into a string.
\<close>

record harmonic_rec =
  harmonic :: nat
  amplitude :: real
  frequency :: real
  percentage :: real
  normalized :: "real option"
  status :: status
  statusColor :: string
  expectedRange :: "real \<times> real"

record profile =
  harmonics :: "harmonic_rec list"
  fundFreq :: real
  constitution :: constitution
  totalEnergy :: real
  healthyOrder :: bool
  strict :: bool

definition mag_at :: "arrays \<Rightarrow> int \<Rightarrow> real option" where
  "mag_at a i = map_option sqrt (power_at a i)"

text \<open>The expected ranges as \<open>(min, max)\<close> pairs and the multipliers (lines 219-248, 286).\<close>

definition expectedRanges :: "bool \<Rightarrow> (real \<times> real) list" where
  "expectedRanges isStrict =
     (if isStrict
      then [(30, 45), (15, 25), (10, 18), (6, 12), (3, 8), (2, 6), (1, 5), (0.5, 4),
            (0.3, 3), (0.2, 2), (0.1, 2)]
      else [(25, 55), (12, 28), (7, 20), (4, 14), (2, 10), (1, 8), (0.5, 6), (0.3, 5),
            (0.2, 4), (0.1, 3), (0.1, 3)])"

definition overMult :: "bool \<Rightarrow> real" where
  "overMult isStrict = (if isStrict then 1.1 else 1.3)"

definition weakMult :: "bool \<Rightarrow> real" where
  "weakMult isStrict = (if isStrict then 0.8 else 0.5)"

definition defMult :: "bool \<Rightarrow> real" where
  "defMult isStrict = (if isStrict then 0.8 else 0.6)"

definition cExcessMult :: "bool \<Rightarrow> real" where
  "cExcessMult isStrict = (if isStrict then 1.05 else 1.2)"

text \<open>The fundamental bin (lines 163-170).\<close>

definition fundBin_of :: "nat \<Rightarrow> real \<Rightarrow> arrays \<Rightarrow> int" where
  "fundBin_of n fps a =
     (let hrMinBin = max 1 \<lfloor>0.8 * real n / fps\<rfloor>;
          hrMaxBin = min \<lceil>2.5 * real n / fps\<rceil> (int (n div 2))
      in snd (peak_scan (mag_at a) hrMinBin hrMinBin hrMaxBin))"

text \<open>
  The amplitude of harmonic \<open>h\<close> (lines 194-203): the largest magnitude within two
  bins of the target, which is \<^verbatim>\<open>Math.round(fundBin * (h === 0 ? 1 : h + 1))\<close>, an integer.
\<close>

definition harmonic_amplitude :: "nat \<Rightarrow> arrays \<Rightarrow> int \<Rightarrow> nat \<Rightarrow> real" where
  "harmonic_amplitude n a fundBin h =
     (let targetBin = fundBin * (if h = 0 then 1 else int h + 1);
          searchStart = max 1 (targetBin - 2);
          searchEnd = min (int (n div 2)) (targetBin + 2)
      in fst (peak_scan (mag_at a) 0 searchStart searchEnd))"

text \<open>The classification of one percentage against its range (lines 256-266).\<close>

definition status_of :: "bool \<Rightarrow> real \<times> real \<Rightarrow> real \<Rightarrow> status" where
  "status_of isStrict rng pct =
     (if pct > snd rng * overMult isStrict then Excess
      else if pct \<ge> fst rng \<and> pct \<le> snd rng then Normal
      else if pct \<ge> fst rng * weakMult isStrict \<and> pct < fst rng then Weak
      else if pct < fst rng * weakMult isStrict then Deficient
      else Elevated)"

definition statusColor_of :: "status \<Rightarrow> string" where
  "statusColor_of s =
     (case s of Excess \<Rightarrow> ''#ff9f0a'' | Normal \<Rightarrow> ''#30d158'' | Weak \<Rightarrow> ''#ff9f0a''
      | Deficient \<Rightarrow> ''#ff2d55'' | Elevated \<Rightarrow> ''#ffd60a'')"

text \<open>
  One harmonic record after the \<^verbatim>\<open>forEach\<close> (lines 205-210, 250-270), from the list
  of the eleven amplitudes, over the reals.  Over doubles an infinite total makes the
  percentage NaN; \<open>harmonic_percentages_d\<close> below has that case.
\<close>

definition harmonic_record :: "bool \<Rightarrow> real \<Rightarrow> real list \<Rightarrow> real \<Rightarrow> nat \<Rightarrow> harmonic_rec" where
  "harmonic_record isStrict fundFreqv amps energy h =
     (let pct = amps ! h / energy * 100;
          rng = expectedRanges isStrict ! h;
          st = status_of isStrict rng pct
      in \<lparr>harmonic = h, amplitude = amps ! h,
          frequency = (if h = 0 then fundFreqv else fundFreqv * (real h + 1)),
          percentage = pct,
          normalized = (if amps ! 0 = 0 then None else Some (amps ! h / amps ! 0)),
          status = st, statusColor = statusColor_of st, expectedRange = rng\<rparr>)"

text \<open>The constitution cascade (lines 273-317).\<close>

definition healthyOrder_of :: "harmonic_rec list \<Rightarrow> bool" where
  "healthyOrder_of hs =
     (percentage (hs ! 1) > percentage (hs ! 2) \<and>
      percentage (hs ! 2) > percentage (hs ! 3) \<and>
      percentage (hs ! 3) > percentage (hs ! 4))"

definition constitution_of :: "bool \<Rightarrow> harmonic_rec list \<Rightarrow> constitution" where
  "constitution_of isStrict hs =
     (let c0 = hs ! 0; c1 = hs ! 1; c2 = hs ! 2; c3 = hs ! 3; c4 = hs ! 4;
          ranges = expectedRanges isStrict
      in if percentage c0 < fst (ranges ! 0) \<and> percentage c3 < fst (ranges ! 3)
         then HeartSpleenDeficiency
         else if percentage c1 > snd (ranges ! 1) * cExcessMult isStrict
         then LiverQiExcess
         else if percentage c2 < fst (ranges ! 2) * defMult isStrict
         then KidneyQiDeficiency
         else if percentage c3 < fst (ranges ! 3) * defMult isStrict
         then SpleenQiWeakness
         else if percentage c4 < fst (ranges ! 4) * defMult isStrict
         then LungQiDeficiency
         else if healthyOrder_of hs \<and> percentage c0 \<ge> fst (ranges ! 0) \<and>
                 (\<not> isStrict \<or> list_all (\<lambda>h. status h = Normal) hs)
         then Balanced
         else SlightDeviation)"

text \<open>
  The analysis after the transform (lines 162-330).  With \<open>fps = 0\<close> the source has
  \<open>hrMinBin = fundBin = Infinity\<close>; every search range is empty, every amplitude 0,
  and the zero total returns \<^verbatim>\<open>null\<close>.
\<close>

definition harmonicProfile :: "nat \<Rightarrow> real \<Rightarrow> bool \<Rightarrow> arrays \<Rightarrow> profile nullable" where
  "harmonicProfile n fps isStrict a =
     (if fps = 0 then Null
      else let fundBin = fundBin_of n fps a;
               fundFreqv = real_of_int fundBin * fps / real n;
               amps = map (harmonic_amplitude n a fundBin) [0..<11];
               energy = sum_list amps
           in if energy = 0 then Null
              else let hs = map (harmonic_record isStrict fundFreqv amps energy) [0..<11]
                   in Value \<lparr>harmonics = hs,
                              fundFreq = real_of_int (js_round (fundFreqv * 100)) / 100,
                              constitution = constitution_of isStrict hs,
                              totalEnergy = energy,
                              healthyOrder = healthyOrder_of hs,
                              strict = isStrict\<rparr>)"

definition pulseHarmonicAnalysis :: "real list \<Rightarrow> real \<Rightarrow> bool \<Rightarrow> profile nullable option" where
  "pulseHarmonicAnalysis signal fps isStrict =
     (if length signal < 90 then Some Null
      else (case nextPow2 (length signal) of
              None \<Rightarrow> None
            | Some n \<Rightarrow>
                (case spectrum signal n of
                   None \<Rightarrow> None
                 | Some a \<Rightarrow> Some (harmonicProfile n fps isStrict a))))"

section \<open>Outlier filter (\<^verbatim>\<open>rejectOutliersIQR\<close>, signal.js 370-381)\<close>

definition rejectOutliersIQR :: "real list \<Rightarrow> real list" where
  "rejectOutliersIQR values =
     (if length values < 4 then values
      else let sorted = sort values;
               q1 = sorted ! (length sorted div 4);
               q3 = sorted ! (3 * length sorted div 4);
               iqr = q3 - q1;
               lower = q1 - 1.5 * iqr;
               upper = q3 + 1.5 * iqr
           in filter (\<lambda>v. v \<ge> lower \<and> v \<le> upper) values)"

section \<open>A test spectrum for the harmonic analysis\<close>

text \<open>
  A 32-point spectrum with unit magnitude at bins 1 and 10 and none elsewhere.  At 30
  frames per second the fundamental is bin 1; the harmonics C0, C1, C2 find bin 1, the
  harmonics C7 to C10 find bin 10, and C3 to C6 find nothing.
\<close>

definition demo_spectrum :: arrays where
  "demo_spectrum =
     ([0, 1, 0, 0, 0, 0, 0, 0, 0, 0, 1, 0, 0, 0, 0, 0,
       0, 0, 0, 0, 0, 0, 0, 0, 0, 0, 0, 0, 0, 0, 0, 0],
      [0, 0, 0, 0, 0, 0, 0, 0, 0, 0, 0, 0, 0, 0, 0, 0,
       0, 0, 0, 0, 0, 0, 0, 0, 0, 0, 0, 0, 0, 0, 0, 0])"

section \<open>The transform of a five-sample signal\<close>

text \<open>
  The transform of the signal \<open>[0, 2, 1, 2, 0]\<close>: its Hann window is
  \<open>[0, 1/2, 1, 1/2, 0]\<close>, the padded buffer \<open>[0, 1, 1, 1, 0, 0, 0, 0]\<close>.
\<close>

definition five_sample_spectrum :: arrays where
  "five_sample_spectrum =
     ([3, 0, - 1, 0, - 1, 0, - 1, 0],
      [0, - 1 - sqrt 2, 0, 1 - sqrt 2, 0, sqrt 2 - 1, 0, 1 + sqrt 2])"

section \<open>Doubles: overflow, infinities and NaN\<close>

text \<open>
  The embedding above computes with reals.  On a waveform of very large amplitude the
  source leaves them: a sum or a product beyond \<^verbatim>\<open>Number.MAX_VALUE\<close> is \<^verbatim>\<open>Infinity\<close>, and
  \<^verbatim>\<open>Infinity / Infinity\<close> is NaN.  The remaining definitions embed the transform, the
  quality assessor and the percentages of the harmonic analysis a second time, over
  numbers that are a real, one of the two infinities, or NaN.

  \<^item> An arithmetic result whose exact value lies beyond \<^verbatim>\<open>Number.MAX_VALUE\<close>
    (\<open>(2^53 - 1) * 2^971\<close>) is the infinity of its sign; within that range the exact
    value is kept.  Rounding is still not modelled, and neither is the sign of zero: a
    zero divisor counts as \<open>+0\<close>.
  \<^item> The special cases are those of IEEE arithmetic: \<open>Infinity - Infinity\<close>,
    \<open>0 * Infinity\<close>, \<open>0 / 0\<close> and \<open>Infinity / Infinity\<close> are NaN, and NaN propagates.
  \<^item> A comparison with NaN is false; \<^verbatim>\<open>Math.min\<close> and \<^verbatim>\<open>Math.max\<close> return NaN when an
    argument is NaN; \<^verbatim>\<open>Math.round\<close> keeps NaN and the infinities.
  \<^item> A sample of a waveform is a finite double, a \<^typ>\<open>real\<close>.
\<close>

datatype jsnum = Num real | PosInf | NegInf | NaN

definition MAX_VALUE :: real where
  "MAX_VALUE = 2 ^ 1024 - 2 ^ 971"

definition overflow :: "real \<Rightarrow> jsnum" where
  "overflow r = (if r > MAX_VALUE then PosInf else if r < - MAX_VALUE then NegInf else Num r)"

text \<open>
  Negation, \<^verbatim>\<open>+\<close>, \<^verbatim>\<open>-\<close>, \<^verbatim>\<open>*\<close>, \<^verbatim>\<open>/\<close> and \<^verbatim>\<open>>\<close>.
\<close>

fun num_neg :: "jsnum \<Rightarrow> jsnum" where
  "num_neg (Num a) = Num (- a)"
| "num_neg PosInf = NegInf"
| "num_neg NegInf = PosInf"
| "num_neg NaN = NaN"

fun num_add :: "jsnum \<Rightarrow> jsnum \<Rightarrow> jsnum" where
  "num_add (Num a) (Num b) = overflow (a + b)"
| "num_add NaN _ = NaN"
| "num_add _ NaN = NaN"
| "num_add PosInf NegInf = NaN"
| "num_add NegInf PosInf = NaN"
| "num_add PosInf _ = PosInf"
| "num_add _ PosInf = PosInf"
| "num_add NegInf _ = NegInf"
| "num_add _ NegInf = NegInf"

definition num_sub :: "jsnum \<Rightarrow> jsnum \<Rightarrow> jsnum" where
  "num_sub a b = num_add a (num_neg b)"

fun num_mul :: "jsnum \<Rightarrow> jsnum \<Rightarrow> jsnum" where
  "num_mul (Num a) (Num b) = overflow (a * b)"
| "num_mul NaN _ = NaN"
| "num_mul _ NaN = NaN"
| "num_mul (Num a) PosInf = (if a = 0 then NaN else if a > 0 then PosInf else NegInf)"
| "num_mul (Num a) NegInf = (if a = 0 then NaN else if a > 0 then NegInf else PosInf)"
| "num_mul PosInf (Num b) = (if b = 0 then NaN else if b > 0 then PosInf else NegInf)"
| "num_mul NegInf (Num b) = (if b = 0 then NaN else if b > 0 then NegInf else PosInf)"
| "num_mul PosInf PosInf = PosInf"
| "num_mul NegInf NegInf = PosInf"
| "num_mul PosInf NegInf = NegInf"
| "num_mul NegInf PosInf = NegInf"

fun num_div :: "jsnum \<Rightarrow> jsnum \<Rightarrow> jsnum" where
  "num_div (Num a) (Num b) =
     (if b = 0 then (if a = 0 then NaN else if a > 0 then PosInf else NegInf)
      else overflow (a / b))"
| "num_div NaN _ = NaN"
| "num_div _ NaN = NaN"
| "num_div (Num a) _ = Num 0"
| "num_div PosInf (Num b) = (if b < 0 then NegInf else PosInf)"
| "num_div NegInf (Num b) = (if b < 0 then PosInf else NegInf)"
| "num_div _ _ = NaN"

fun num_gt :: "jsnum \<Rightarrow> jsnum \<Rightarrow> bool" where
  "num_gt (Num a) (Num b) = (a > b)"
| "num_gt NaN _ = False"
| "num_gt _ NaN = False"
| "num_gt PosInf PosInf = False"
| "num_gt PosInf _ = True"
| "num_gt _ PosInf = False"
| "num_gt NegInf _ = False"
| "num_gt _ NegInf = True"

text \<open>
  \<^verbatim>\<open>Math.min\<close>, \<^verbatim>\<open>Math.max\<close>, \<^verbatim>\<open>Math.round\<close>, \<^verbatim>\<open>Math.sqrt\<close> and \<^verbatim>\<open>Math.log10\<close>.
\<close>

definition Math_min :: "jsnum \<Rightarrow> jsnum \<Rightarrow> jsnum" where
  "Math_min a b = (if a = NaN \<or> b = NaN then NaN else if num_gt a b then b else a)"

definition Math_max :: "jsnum \<Rightarrow> jsnum \<Rightarrow> jsnum" where
  "Math_max a b = (if a = NaN \<or> b = NaN then NaN else if num_gt b a then b else a)"

fun Math_round :: "jsnum \<Rightarrow> jsnum" where
  "Math_round (Num a) = Num (real_of_int (js_round a))"
| "Math_round x = x"

fun Math_sqrt :: "jsnum \<Rightarrow> jsnum" where
  "Math_sqrt (Num a) = (if a < 0 then NaN else Num (sqrt a))"
| "Math_sqrt PosInf = PosInf"
| "Math_sqrt _ = NaN"

fun Math_log10 :: "jsnum \<Rightarrow> jsnum" where
  "Math_log10 (Num a) = (if a < 0 then NaN else if a = 0 then NegInf else Num (log 10 a))"
| "Math_log10 PosInf = PosInf"
| "Math_log10 _ = NaN"

section \<open>The transform over doubles (signal.js 85-114)\<close>

text \<open>
  \<^verbatim>\<open>fft(re, im, n)\<close> as above, with the arithmetic of doubles: the bit-reversal
  permutation, one butterfly, the \<open>j\<close> loop over a block, the \<open>i\<close> loop over the blocks
  of a stage, and the stage loop with its 32-bit shift.  The twiddle factors
  \<^verbatim>\<open>Math.cos(ang)\<close> and \<^verbatim>\<open>Math.sin(ang)\<close> are finite.
\<close>

type_synonym darrays = "jsnum list \<times> jsnum list"

definition swap_d :: "jsnum list \<Rightarrow> nat \<Rightarrow> nat \<Rightarrow> jsnum list" where
  "swap_d xs i j = xs[i := xs ! j, j := xs ! i]"

definition bitrev_step_d :: "nat \<Rightarrow> nat \<times> darrays \<Rightarrow> nat \<Rightarrow> nat \<times> darrays" where
  "bitrev_step_d n st i =
     (case st of (j, re, im) \<Rightarrow>
        (case bitrev_carry j (n div 2) of (j1, bt) \<Rightarrow>
           let j2 = xor j1 bt
           in if i < j2 then (j2, swap_d re i j2, swap_d im i j2) else (j2, re, im)))"

definition bit_reversal_d :: "nat \<Rightarrow> darrays \<Rightarrow> darrays" where
  "bit_reversal_d n a = snd (foldl (bitrev_step_d n) (0, a) [1..<n])"

definition butterfly_d ::
  "nat \<Rightarrow> nat \<Rightarrow> jsnum \<times> jsnum \<Rightarrow> (jsnum \<times> jsnum) \<times> darrays \<Rightarrow> nat
     \<Rightarrow> (jsnum \<times> jsnum) \<times> darrays" where
  "butterfly_d len i w st j =
     (case st of ((curRe, curIm), re, im) \<Rightarrow>
        let hi = i + j + len div 2; lo = i + j;
            tRe = num_sub (num_mul curRe (re ! hi)) (num_mul curIm (im ! hi));
            tIm = num_add (num_mul curRe (im ! hi)) (num_mul curIm (re ! hi));
            re1 = re[hi := num_sub (re ! lo) tRe];
            im1 = im[hi := num_sub (im ! lo) tIm];
            re2 = re1[lo := num_add (re1 ! lo) tRe];
            im2 = im1[lo := num_add (im1 ! lo) tIm]
        in ((num_sub (num_mul curRe (fst w)) (num_mul curIm (snd w)),
             num_add (num_mul curRe (snd w)) (num_mul curIm (fst w))), re2, im2))"

definition fft_block_d :: "nat \<Rightarrow> jsnum \<times> jsnum \<Rightarrow> darrays \<Rightarrow> nat \<Rightarrow> darrays" where
  "fft_block_d len w a i =
     snd (foldl (butterfly_d len i w) ((Num 1, Num 0), a) [0..<len div 2])"

definition fft_stage_d :: "nat \<Rightarrow> nat \<Rightarrow> darrays \<Rightarrow> darrays" where
  "fft_stage_d len n a =
     (let ang = - 2 * pi / real len
      in foldl (fft_block_d len (Num (cos ang), Num (sin ang))) a
           (map (\<lambda>m. m * len) [0..<(n + len - 1) div len]))"

partial_function (option) fft_stages_d :: "int \<Rightarrow> nat \<Rightarrow> darrays \<Rightarrow> darrays option" where
  "fft_stages_d len n a =
     (if len \<le> int n
      then (if len \<le> 0 then None
            else fft_stages_d (to_int32 (len * 2)) n (fft_stage_d (nat len) n a))
      else Some a)"

definition fft_d :: "nat \<Rightarrow> darrays \<Rightarrow> darrays option" where
  "fft_d n a = fft_stages_d 2 n (bit_reversal_d n a)"

text \<open>
  The Hann window and the zero-padded buffers (signal.js 316-322, analysis.js 152-159).
  For a one-sample signal the window is \<open>0.5 * (1 - cos (0 / 0))\<close>, a NaN.
\<close>

definition hann_d :: "nat \<Rightarrow> nat \<Rightarrow> jsnum" where
  "hann_d len i =
     (if len = 1 then NaN else Num (0.5 * (1 - cos (2 * pi * real i / (real len - 1)))))"

definition windowed_d :: "real list \<Rightarrow> nat \<Rightarrow> darrays" where
  "windowed_d signal n =
     (map (\<lambda>i. num_mul (Num (signal ! i)) (hann_d (length signal) i)) [0..<length signal]
        @ replicate (n - length signal) (Num 0),
      replicate n (Num 0))"

definition spectrum_d :: "real list \<Rightarrow> nat \<Rightarrow> darrays option" where
  "spectrum_d signal n = fft_d n (windowed_d signal n)"

text \<open>
  \<^verbatim>\<open>re[i] * re[i] + im[i] * im[i]\<close>; a read outside the array is \<^verbatim>\<open>undefined\<close> and the
  power a NaN.
\<close>

definition power_d :: "darrays \<Rightarrow> int \<Rightarrow> jsnum" where
  "power_d a i =
     (if 0 \<le> i \<and> nat i < length (fst a)
      then num_add (num_mul (fst a ! nat i) (fst a ! nat i))
                   (num_mul (snd a ! nat i) (snd a ! nat i))
      else NaN)"

section \<open>Quality assessor over doubles (signal.js 312-364)\<close>

text \<open>
  \<^verbatim>\<open>arrayStd\<close> (lines 361-364): the mean, then the root of the mean squared deviation,
  both sums accumulated from 0 in array order.
\<close>

definition arrayStd_d :: "real list \<Rightarrow> jsnum" where
  "arrayStd_d arr =
     (let len = Num (real (length arr));
          m = num_div (foldl (\<lambda>a b. num_add a (Num b)) (Num 0) arr) len
      in Math_sqrt (num_div
           (foldl (\<lambda>s v. num_add s (let d = num_sub (Num v) m in num_mul d d)) (Num 0) arr)
           len))"

text \<open>
  The stationarity ratio (lines 351-355):
  \<^verbatim>\<open>std1 > 0 ? Math.min(std1, std2) / Math.max(std1, std2) : 0\<close>.
\<close>

definition stationarity_d :: "real list \<Rightarrow> jsnum" where
  "stationarity_d signal =
     (let half = length signal div 2;
          std1 = arrayStd_d (take half signal);
          std2 = arrayStd_d (drop half signal)
      in if num_gt std1 (Num 0) then num_div (Math_min std1 std2) (Math_max std1 std2)
         else Num 0)"

text \<open>
  The combined score (lines 346-357) from \<^verbatim>\<open>snr\<close>, \<^verbatim>\<open>par\<close> and the signal:
  \<^verbatim>\<open>score = Math.min(99, Math.max(0, Math.round(score)))\<close>.
\<close>

definition combinedScore_d :: "jsnum \<Rightarrow> jsnum \<Rightarrow> real list \<Rightarrow> jsnum" where
  "combinedScore_d snrv par signal =
     (let s0 = Num 0;
          s1 = (if num_gt snrv (Num 0)
                then num_add s0 (Math_min (Num 40) (num_mul snrv (Num 8))) else s0);
          s2 = (if num_gt par (Num 2)
                then num_add s1 (Math_min (Num 35) (num_mul (num_sub par (Num 2)) (Num 7)))
                else s1);
          s3 = num_add s2 (num_mul (stationarity_d signal) (Num 25))
      in Math_min (Num 99) (Math_max (Num 0) (Math_round s3)))"

text \<open>
  The accumulation loop over the bins \<open>1..n/2\<close> (lines 329-337), \<^verbatim>\<open>snr\<close>, \<^verbatim>\<open>par\<close> (lines
  339-344) and the result (line 358).  With \<open>fps = 0\<close> the source has
  \<open>hrMin = Infinity\<close> and the width \<^verbatim>\<open>hrMax - hrMin + 1\<close> is \<open>-Infinity\<close>.
\<close>

definition power_step_d ::
  "nat \<Rightarrow> real \<Rightarrow> darrays \<Rightarrow> jsnum \<times> jsnum \<times> jsnum \<Rightarrow> nat \<Rightarrow> jsnum \<times> jsnum \<times> jsnum" where
  "power_step_d n fps a acc i =
     (case acc of (signalPower, totalPower, peakPower) \<Rightarrow>
        let p = power_d a (int i)
        in if in_band n fps i
           then (num_add signalPower p, num_add totalPower p,
                 if num_gt p peakPower then p else peakPower)
           else (signalPower, num_add totalPower p, peakPower))"

definition band_powers_d :: "nat \<Rightarrow> real \<Rightarrow> darrays \<Rightarrow> jsnum \<times> jsnum \<times> jsnum" where
  "band_powers_d n fps a = foldl (power_step_d n fps a) (Num 0, Num 0, Num 0) [1..<n div 2 + 1]"

record quality_d =
  score_d :: jsnum
  usable_d :: bool
  snr_d :: jsnum

definition quality_of_d :: "real list \<Rightarrow> real \<Rightarrow> nat \<Rightarrow> darrays \<Rightarrow> quality_d" where
  "quality_of_d signal fps n a =
     (case band_powers_d n fps a of (signalPower, totalPower, peakPower) \<Rightarrow>
        let noisePower = num_sub totalPower signalPower;
            snrv = (if num_gt noisePower (Num 0)
                    then num_mul (Num 10) (Math_log10 (num_div signalPower noisePower))
                    else Num 0);
            width = (if fps = 0 then NegInf
                     else Num (real_of_int (hrMax n fps - hrMin n fps + 1)));
            avgHRPower = num_div signalPower width;
            par = (if num_gt avgHRPower (Num 0) then num_div peakPower avgHRPower else Num 0);
            sc = combinedScore_d snrv par signal
        in \<lparr>score_d = sc, usable_d = num_gt sc (Num 25),
            snr_d = num_div (Math_round (num_mul snrv (Num 10))) (Num 10)\<rparr>)"

definition assessSignalQuality_d :: "real list \<Rightarrow> real \<Rightarrow> quality_d option" where
  "assessSignalQuality_d signal fps =
     (if length signal < 60 then Some \<lparr>score_d = Num 0, usable_d = False, snr_d = Num 0\<rparr>
      else (case nextPow2 (length signal) of
              None \<Rightarrow> None
            | Some n \<Rightarrow>
                (case spectrum_d signal n of
                   None \<Rightarrow> None
                 | Some a \<Rightarrow> Some (quality_of_d signal fps n a))))"

section \<open>Harmonic percentages over doubles (analysis.js 148-215, 250-251)\<close>

text \<open>
  The fundamental bin (lines 163-170), the amplitude of harmonic \<open>h\<close> (lines 194-203),
  the total \<^verbatim>\<open>totalEnergy += peakMag\<close> accumulated from 0, the test
  \<^verbatim>\<open>totalEnergy === 0\<close> and \<^verbatim>\<open>h.percentage = (h.amplitude / totalEnergy) * 100\<close>.
  \<open>harmonic_percentages_d\<close> is the list of the \<^verbatim>\<open>percentage\<close> fields of the eleven
  records in order, \<open>Null\<close> where the source returns \<^verbatim>\<open>null\<close>; the other fields of the
  profile are left out.  With \<open>fps = 0\<close> every search range is empty and the zero total
  returns \<^verbatim>\<open>null\<close>, as above.
\<close>

definition mag_d :: "darrays \<Rightarrow> int \<Rightarrow> jsnum" where
  "mag_d a i = Math_sqrt (power_d a i)"

definition scan_step_d :: "(int \<Rightarrow> jsnum) \<Rightarrow> jsnum \<times> int \<Rightarrow> int \<Rightarrow> jsnum \<times> int" where
  "scan_step_d mag st i = (if num_gt (mag i) (fst st) then (mag i, i) else st)"

definition peak_scan_d :: "(int \<Rightarrow> jsnum) \<Rightarrow> int \<Rightarrow> int \<Rightarrow> int \<Rightarrow> jsnum \<times> int" where
  "peak_scan_d mag peak0 lo hi = foldl (scan_step_d mag) (Num 0, peak0) [lo..hi]"

definition fundBin_d :: "nat \<Rightarrow> real \<Rightarrow> darrays \<Rightarrow> int" where
  "fundBin_d n fps a =
     (let hrMinBin = max 1 \<lfloor>0.8 * real n / fps\<rfloor>;
          hrMaxBin = min \<lceil>2.5 * real n / fps\<rceil> (int (n div 2))
      in snd (peak_scan_d (mag_d a) hrMinBin hrMinBin hrMaxBin))"

definition harmonic_amplitude_d :: "nat \<Rightarrow> darrays \<Rightarrow> int \<Rightarrow> nat \<Rightarrow> jsnum" where
  "harmonic_amplitude_d n a fundBin h =
     (let targetBin = fundBin * (if h = 0 then 1 else int h + 1);
          searchStart = max 1 (targetBin - 2);
          searchEnd = min (int (n div 2)) (targetBin + 2)
      in fst (peak_scan_d (mag_d a) 0 searchStart searchEnd))"

definition harmonic_percentages_d :: "nat \<Rightarrow> real \<Rightarrow> darrays \<Rightarrow> jsnum list nullable" where
  "harmonic_percentages_d n fps a =
     (if fps = 0 then Null
      else let fundBin = fundBin_d n fps a;
               amps = map (harmonic_amplitude_d n a fundBin) [0..<11];
               energy = foldl num_add (Num 0) amps
           in if energy = Num 0 then Null
              else Value (map (\<lambda>amp. num_mul (num_div amp energy) (Num 100)) amps))"

definition pulseHarmonicAnalysis_percentages :: "real list \<Rightarrow> real \<Rightarrow> jsnum list nullable option" where
  "pulseHarmonicAnalysis_percentages signal fps =
     (if length signal < 90 then Some Null
      else (case nextPow2 (length signal) of
              None \<Rightarrow> None
            | Some n \<Rightarrow>
                (case spectrum_d signal n of
                   None \<Rightarrow> None
                 | Some a \<Rightarrow> Some (harmonic_percentages_d n fps a))))"

text \<open>
  The values a peak scan can leave in \<^verbatim>\<open>peakMag\<close>: a number that is not negative, or
  \<open>Infinity\<close>.
\<close>

fun nonneg :: "jsnum \<Rightarrow> bool" where
  "nonneg (Num x) = (0 \<le> x)"
| "nonneg PosInf = True"
| "nonneg _ = False"

section \<open>Two waveforms of large amplitude\<close>

text \<open>
  Sixty samples alternating between \<open>-10^154\<close> and \<open>10^154\<close>: the square of a sample
  is a finite double, the sum of two squares is not.
\<close>

definition alternating_waveform :: "real list" where
  "alternating_waveform = concat (replicate 30 [- (10 ^ 154), 10 ^ 154])"

text \<open>
  Ninety samples, all 0 except sample 64, which is \<open>10^200\<close>.  \<open>impulse_peak\<close> is that
  sample times its Hann weight.  The transform pads to 128 points and the bit reversal
  moves index 64 to index 1; \<open>impulse_stage c L\<close> are the buffers after the stage of
  length \<open>L\<close> when the entry at index 1 was \<open>c\<close>: the first \<open>L\<close> real parts alternate
  between \<open>c\<close> and \<open>-c\<close>, everything else is 0.
\<close>

definition impulse_waveform :: "real list" where
  "impulse_waveform = (replicate 90 0)[64 := 10 ^ 200]"

definition impulse_peak :: real where
  "impulse_peak = 10 ^ 200 * (0.5 * (1 - cos (2 * pi * 64 / 89)))"

definition impulse_stage :: "real \<Rightarrow> nat \<Rightarrow> darrays" where
  "impulse_stage c L =
     (map (\<lambda>k. if k < L then Num ((- 1) ^ k * c) else Num 0) [0..<128],
      replicate 128 (Num 0))"

section \<open>Properties of the outlier filter\<close>

lemma rejectOutliersIQR_subseq: "subseq (rejectOutliersIQR xs) xs"
  by (simp add: rejectOutliersIQR_def Let_def)

lemma rejectOutliersIQR_first_pass:
  "rejectOutliersIQR [60, 61, 62, 63, 64, 65, 66, 67, 74, 120]
     = [60, 61, 62, 63, 64, 65, 66, 67, 74]"
  by (simp add: rejectOutliersIQR_def Let_def)

lemma rejectOutliersIQR_second_pass:
  "rejectOutliersIQR [60, 61, 62, 63, 64, 65, 66, 67, 74]
     = [60, 61, 62, 63, 64, 65, 66, 67]"
  by (simp add: rejectOutliersIQR_def Let_def)

text \<open>
  Claim C1 as stated (idempotence on every input of length at least 4) fails: on ten
  heart-rate values the first pass drops 120 and keeps 74; the second pass, with the
  quartiles recomputed on nine values, drops 74 as well.
\<close>

theorem rejectOutliersIQR_not_idempotent:
  "length [60, 61, 62, 63, 64, 65, 66, 67, 74, 120 :: real] \<ge> 4 \<and>
   set (rejectOutliersIQR (rejectOutliersIQR [60, 61, 62, 63, 64, 65, 66, 67, 74, 120]))
     \<noteq> set (rejectOutliersIQR [60, 61, 62, 63, 64, 65, 66, 67, 74, 120])"
proof -
  have "(74::real) \<in> set [60, 61, 62, 63, 64, 65, 66, 67, 74]"
    by simp
  moreover have "(74::real) \<notin> set [60, 61, 62, 63, 64, 65, 66, 67]"
    by simp
  ultimately have "set [60, 61, 62, 63, 64, 65, 66, 67 :: real]
      \<noteq> set [60, 61, 62, 63, 64, 65, 66, 67, 74]"
    by metis
  then show ?thesis
    by (simp only: rejectOutliersIQR_first_pass rejectOutliersIQR_second_pass) simp
qed

text \<open>
  Claim C1, amended: a second application of \<open>rejectOutliersIQR\<close> never re-admits a
  value (its result is a subsequence of the first application's result), and it
  rejects nothing further whenever the first application rejected nothing or left
  fewer than four values.
\<close>

theorem rejectOutliersIQR_twice:
  "subseq (rejectOutliersIQR (rejectOutliersIQR xs)) (rejectOutliersIQR xs) \<and>
   (rejectOutliersIQR xs = xs \<or> length (rejectOutliersIQR xs) < 4
      \<longrightarrow> rejectOutliersIQR (rejectOutliersIQR xs) = rejectOutliersIQR xs)"
proof (intro conjI impI)
  show "subseq (rejectOutliersIQR (rejectOutliersIQR xs)) (rejectOutliersIQR xs)"
    by (rule rejectOutliersIQR_subseq)
next
  assume "rejectOutliersIQR xs = xs \<or> length (rejectOutliersIQR xs) < 4"
  then show "rejectOutliersIQR (rejectOutliersIQR xs) = rejectOutliersIQR xs"
  proof
    assume "rejectOutliersIQR xs = xs"
    then show ?thesis by simp
  next
    assume "length (rejectOutliersIQR xs) < 4"
    then show ?thesis
      by (subst rejectOutliersIQR_def) simp
  qed
qed

theorem rejectOutliersIQR_twice_witness:
  "rejectOutliersIQR [60, 62, 61, 63] = [60, 62, 61, 63] \<and>
   rejectOutliersIQR (rejectOutliersIQR [60, 62, 61, 63]) = rejectOutliersIQR [60, 62, 61, 63]"
proof -
  have h: "rejectOutliersIQR [60, 62, 61, 63] = [60, 62, 61, 63]"
    by (simp add: rejectOutliersIQR_def Let_def)
  show ?thesis
    using h rejectOutliersIQR_twice [of "[60, 62, 61, 63]"] by simp
qed

section \<open>Termination of the shared loops\<close>

lemma upt_num: "[m..<numeral k] = (if m < numeral k then m # [Suc m..<numeral k] else [])"
  by (rule upt_rec)

lemma to_int32_id: "0 \<le> x \<Longrightarrow> x < 2147483648 \<Longrightarrow> to_int32 x = x"
  by (simp add: to_int32_def)

lemma pow2_le_30: "k \<le> 30 \<Longrightarrow> (2::int) ^ k \<le> 1073741824"
proof -
  assume "k \<le> 30"
  then have "(2::int) ^ k \<le> 2 ^ 30" by (intro power_increasing) simp_all
  then show ?thesis by simp
qed

lemma nextPow2_loop_pow:
  "k \<le> 30 \<Longrightarrow> n \<le> 1073741824 \<Longrightarrow> k = 0 \<or> 2 ^ (k - 1) < n \<Longrightarrow>
   \<exists>j. k \<le> j \<and> j \<le> 30 \<and> nextPow2_loop (2 ^ k) n = Some (2 ^ j) \<and> n \<le> 2 ^ j \<and>
       (j = 0 \<or> 2 ^ (j - 1) < n)"
proof (induction "30 - k" arbitrary: k)
  case 0
  then have k: "k = 30" by simp
  have "nextPow2_loop (2 ^ k) n = Some (2 ^ k)"
    using 0 k by (subst nextPow2_loop.simps) simp
  then show ?case using 0 k by auto
next
  case (Suc m)
  show ?case
  proof (cases "(2::int) ^ k < n")
    case False
    then have "nextPow2_loop (2 ^ k) n = Some (2 ^ k)"
      by (subst nextPow2_loop.simps) simp
    then show ?thesis using False Suc.prems by auto
  next
    case True
    have k: "k < 30" using Suc.hyps by simp
    have "(2::int) ^ (k + 1) \<le> 1073741824" using k by (intro pow2_le_30) simp
    then have wrap: "to_int32 (2 ^ k * 2) = 2 ^ (k + 1)"
      by (simp add: to_int32_id)
    have step: "nextPow2_loop (2 ^ k) n = nextPow2_loop (2 ^ (k + 1)) n"
      using True wrap by (subst nextPow2_loop.simps) simp
    have "\<exists>j. k + 1 \<le> j \<and> j \<le> 30 \<and> nextPow2_loop (2 ^ (k + 1)) n = Some (2 ^ j) \<and>
        n \<le> 2 ^ j \<and> (j = 0 \<or> 2 ^ (j - 1) < n)"
      using Suc.hyps(1)[of "k + 1"] Suc.hyps(2) k True Suc.prems(2) by simp
    then show ?thesis using step by auto
  qed
qed

lemma nextPow2_returns:
  assumes "n \<le> 2 ^ m" and "m \<le> 30"
  shows "\<exists>j. j \<le> m \<and> nextPow2 n = Some (2 ^ j) \<and> n \<le> 2 ^ j"
proof -
  have "(2::int) ^ m \<le> 1073741824" using assms(2) by (rule pow2_le_30)
  moreover have nm: "int n \<le> 2 ^ m" using assms(1) by (metis of_nat_le_iff of_nat_numeral of_nat_power)
  ultimately have "int n \<le> 1073741824" by linarith
  then obtain j where j: "j \<le> 30" "nextPow2_loop (2 ^ 0) (int n) = Some (2 ^ j)"
      "int n \<le> 2 ^ j" "j = 0 \<or> 2 ^ (j - 1) < int n"
    using nextPow2_loop_pow[of 0 "int n"] by auto
  have "j \<le> m"
  proof (rule ccontr)
    assume "\<not> j \<le> m"
    then have "m \<le> j - 1" "j \<noteq> 0" by simp_all
    then have "(2::int) ^ m \<le> 2 ^ (j - 1)" by (intro power_increasing) simp_all
    then show False using j(4) nm \<open>j \<noteq> 0\<close> by linarith
  qed
  moreover have "nextPow2 n = Some (2 ^ j)"
    using j(2) by (simp add: nextPow2_def nat_power_eq)
  moreover have "n \<le> 2 ^ j" using j(3) by (metis of_nat_le_iff of_nat_numeral of_nat_power)
  ultimately show ?thesis by blast
qed

lemma fft_stages_returns:
  "1 \<le> j \<Longrightarrow> j \<le> k + 1 \<Longrightarrow> k \<le> 29 \<Longrightarrow> \<exists>b. fft_stages (2 ^ j) (2 ^ k) a = Some b"
proof (induction "k + 1 - j" arbitrary: j a)
  case 0
  then have j: "j = k + 1" by simp
  have "\<not> (2::int) ^ j \<le> int (2 ^ k)" using j by simp
  then show ?case by (subst fft_stages.simps) simp
next
  case (Suc m)
  have jk: "j \<le> k" using Suc.hyps(2) by simp
  have le: "(2::int) ^ j \<le> int (2 ^ k)" using jk by (simp add: power_increasing)
  have "(2::int) ^ (j + 1) \<le> 1073741824" using jk Suc.prems by (intro pow2_le_30) simp
  then have wrap: "to_int32 (2 ^ j * 2) = 2 ^ (j + 1)" by (simp add: to_int32_id)
  have "fft_stages (2 ^ j) (2 ^ k) a
      = fft_stages (2 ^ (j + 1)) (2 ^ k) (fft_stage (nat (2 ^ j)) (2 ^ k) a)"
    using le wrap by (subst fft_stages.simps) simp
  moreover have "\<exists>b. fft_stages (2 ^ (j + 1)) (2 ^ k) (fft_stage (nat (2 ^ j)) (2 ^ k) a) = Some b"
    using Suc.hyps(1)[of "j + 1"] Suc.hyps(2) jk Suc.prems by simp
  ultimately show ?case by simp
qed

lemma fft_returns: "k \<le> 29 \<Longrightarrow> \<exists>b. fft (2 ^ k) a = Some b"
  using fft_stages_returns[of 1 k] by (simp add: fft_def)

lemma spectrum_returns:
  assumes "length signal \<le> 2 ^ 29"
  shows "\<exists>n a. nextPow2 (length signal) = Some n \<and> spectrum signal n = Some a"
proof -
  obtain j where j: "j \<le> 29" "nextPow2 (length signal) = Some (2 ^ j)"
    using nextPow2_returns[OF assms] by auto
  obtain b where "fft (2 ^ j) (windowed signal (2 ^ j)) = Some b"
    using fft_returns[OF j(1)] by blast
  then show ?thesis using j(2) by (simp add: spectrum_def)
qed

section \<open>Beyond \<open>2^30\<close> samples the 32-bit shifts wrap\<close>

text \<open>
  The length bounds of the statements below are the range of the two doubling loops:
  past \<open>2^30\<close> the shift in \<open>nextPow2\<close> wraps to \<open>-2^31\<close> and then to 0, which never
  reaches \<open>n\<close>; and on a buffer of \<open>2^30\<close> entries the stage loop of \<open>fft\<close> wraps to a
  negative block length.
\<close>

lemma nextPow2_loop_Some:
  assumes "nextPow2_loop p m = Some z"
  shows "\<not> (p = 0 \<and> 0 < m)"
proof (rule nextPow2_loop.raw_induct[where P = "\<lambda>p m z. \<not> (p = 0 \<and> 0 < m)", OF _ assms])
  fix f :: "int \<Rightarrow> int \<Rightarrow> int option" and p m z :: int
  assume IH: "\<And>n b y. f n b = Some y \<Longrightarrow> \<not> (n = 0 \<and> 0 < b)"
    and eq: "(if p < m then f (to_int32 (p * 2)) m else Some p) = Some z"
  show "\<not> (p = 0 \<and> 0 < m)"
  proof
    assume pm: "p = 0 \<and> 0 < m"
    then have "f (to_int32 (p * 2)) m = Some z"
      using eq by (simp split: if_splits)
    then have "\<not> (to_int32 (p * 2) = 0 \<and> 0 < m)" by (rule IH)
    then show False using pm by (simp add: to_int32_def)
  qed
qed

lemma nextPow2_loop_zero: "0 < n \<Longrightarrow> nextPow2_loop 0 n = None"
  using nextPow2_loop_Some[of 0 n] by (cases "nextPow2_loop 0 n") auto

lemma nextPow2_loop_diverges:
  "k \<le> 30 \<Longrightarrow> 1073741824 < n \<Longrightarrow> nextPow2_loop (2 ^ k) n = None"
proof (induction "30 - k" arbitrary: k)
  case 0
  then have k: "k = 30" by simp
  have "nextPow2_loop (2 ^ 30) n = nextPow2_loop (- 2147483648) n"
    using 0(3) by (subst nextPow2_loop.simps) (simp add: to_int32_def)
  also have "\<dots> = nextPow2_loop 0 n"
    using 0(3) by (subst nextPow2_loop.simps) (simp add: to_int32_def)
  also have "\<dots> = None" using 0(3) by (intro nextPow2_loop_zero) simp
  finally show ?case using k by simp
next
  case (Suc m)
  have k: "k < 30" using Suc.hyps by simp
  have le: "(2::int) ^ (k + 1) \<le> 1073741824" using k by (intro pow2_le_30) simp
  then have lt: "(2::int) ^ k < n" using Suc.prems by simp
  have wrap: "to_int32 (2 ^ k * 2) = 2 ^ (k + 1)" using le by (simp add: to_int32_id)
  have "nextPow2_loop (2 ^ k) n = nextPow2_loop (2 ^ (k + 1)) n"
    using lt wrap by (subst nextPow2_loop.simps) simp
  also have "\<dots> = None"
    using Suc.hyps(1)[of "k + 1"] Suc.hyps(2) k Suc.prems by simp
  finally show ?case .
qed

lemma nextPow2_diverges: "2 ^ 30 < n \<Longrightarrow> nextPow2 n = None"
  using nextPow2_loop_diverges[of 0 "int n"] by (simp add: nextPow2_def)

lemma nextPow2_None_iff: "nextPow2 n = None \<longleftrightarrow> 2 ^ 30 < n"
proof
  assume "nextPow2 n = None"
  then show "2 ^ 30 < n" using nextPow2_returns[of n 30] by (cases "n \<le> 2 ^ 30") auto
next
  assume "2 ^ 30 < n"
  then show "nextPow2 n = None" by (rule nextPow2_diverges)
qed

lemma fft_stages_diverges:
  "1 \<le> j \<Longrightarrow> j \<le> 30 \<Longrightarrow> fft_stages (2 ^ j) (2 ^ 30) a = None"
proof (induction "30 - j" arbitrary: j a)
  case 0
  then have j: "j = 30" by simp
  have "fft_stages (2 ^ 30) (2 ^ 30) a
      = fft_stages (- 2147483648) (2 ^ 30) (fft_stage (nat (2 ^ 30)) (2 ^ 30) a)"
    by (subst fft_stages.simps) (simp add: to_int32_def)
  also have "\<dots> = None"
    by (subst fft_stages.simps) simp
  finally show ?case using j by simp
next
  case (Suc m)
  have j: "j < 30" using Suc.hyps by simp
  have le: "(2::int) ^ (j + 1) \<le> 1073741824" using j by (intro pow2_le_30) simp
  have wrap: "to_int32 (2 ^ j * 2) = 2 ^ (j + 1)" using le by (simp add: to_int32_id)
  have "(2::int) ^ j \<le> int (2 ^ 30)" using le by simp
  then have "fft_stages (2 ^ j) (2 ^ 30) a
      = fft_stages (2 ^ (j + 1)) (2 ^ 30) (fft_stage (nat (2 ^ j)) (2 ^ 30) a)"
    using wrap by (subst fft_stages.simps) simp
  also have "\<dots> = None"
    using Suc.hyps(1)[of "j + 1"] Suc.hyps(2) j Suc.prems by simp
  finally show ?case .
qed

lemma fft_diverges: "fft (2 ^ 30) a = None"
  using fft_stages_diverges[of 1] by (simp add: fft_def)

section \<open>Every estimator returns on a signal of at most \<open>2^29\<close> samples\<close>

lemma welch_accumulate_returns:
  "k \<le> 29 \<Longrightarrow> \<exists>avg'. welch_accumulate signal sl st m (2 ^ k) avg ss = Some avg'"
proof (induction ss arbitrary: avg)
  case Nil
  then show ?case by simp
next
  case (Cons s ss)
  obtain b where "fft (2 ^ k) (segment_buffers signal sl (s * st) (2 ^ k)) = Some b"
    using fft_returns[OF Cons.prems] by blast
  then show ?case using Cons.IH[OF Cons.prems] by simp
qed

lemma fftHeartRate_returns:
  assumes "length signal \<le> 2 ^ 29"
  shows "\<exists>h. fftHeartRate signal fps = Some h"
proof -
  obtain n a where "nextPow2 (length signal) = Some n" "spectrum signal n = Some a"
    using spectrum_returns[OF assms] by blast
  then show ?thesis by (simp add: fftHeartRate_def)
qed

lemma welchFFTHeartRate_returns:
  assumes "length signal \<le> 2 ^ 29"
  shows "\<exists>h. welchFFTHeartRate signal fps = Some h"
proof -
  obtain j where j: "j \<le> 29" "nextPow2 (length signal) = Some (2 ^ j)"
    using nextPow2_returns[OF assms] by auto
  define sl where "sl = min (2 ^ j) (length signal)"
  have "sl \<le> 2 ^ 29" using assms by (simp add: sl_def)
  then obtain i where i: "i \<le> 29" "nextPow2 sl = Some (2 ^ i)"
    using nextPow2_returns[of sl 29] by auto
  obtain h where h: "fftHeartRate signal fps = Some h"
    using fftHeartRate_returns[OF assms] by blast
  show ?thesis
    unfolding welchFFTHeartRate_def welchSegmentation_def
    using j(2) i h welch_accumulate_returns[OF i(1)]
    apply (simp add: Let_def sl_def[symmetric] split: option.splits)
    apply (metis option.distinct(1))
    done
qed

lemma estimateBreathingRate_returns:
  "length signal \<le> 2 ^ 29 \<Longrightarrow> \<exists>r. estimateBreathingRate signal fps = Some r"
  using spectrum_returns[of signal]
  by (auto simp: estimateBreathingRate_def)

lemma pulseHarmonicAnalysis_returns:
  "length signal \<le> 2 ^ 29 \<Longrightarrow> \<exists>r. pulseHarmonicAnalysis signal fps isStrict = Some r"
  using spectrum_returns[of signal]
  by (auto simp: pulseHarmonicAnalysis_def)

section \<open>Inputs below the documented minimum\<close>

text \<open>
  Claim C9: each metric-layer estimator returns \<^verbatim>\<open>null\<close> on an input shorter than
  its minimum: \<open>calculateHRVMetrics\<close> on fewer than 3 intervals,
  \<open>estimateBreathingRate\<close> and \<open>pulseHarmonicAnalysis\<close> on fewer than 90 samples.
\<close>

theorem short_inputs_absent:
  "(length rr < 3 \<longrightarrow> calculateHRVMetrics rr = Null) \<and>
   (length signal < 90 \<longrightarrow> estimateBreathingRate signal fps = Some Null) \<and>
   (length signal < 90 \<longrightarrow> pulseHarmonicAnalysis signal fps isStrict = Some Null)"
proof (intro conjI impI)
  assume "length rr < 3"
  then show "calculateHRVMetrics rr = Null"
    unfolding calculateHRVMetrics_def by (simp only: if_True)
next
  assume "length signal < 90"
  then show "estimateBreathingRate signal fps = Some Null"
    unfolding estimateBreathingRate_def by (simp only: if_True)
next
  assume "length signal < 90"
  then show "pulseHarmonicAnalysis signal fps isStrict = Some Null"
    unfolding pulseHarmonicAnalysis_def by (simp only: if_True)
qed

theorem short_inputs_absent_witness:
  "length [800, 810 :: real] < 3 \<and> length [1, 2, 3 :: real] < 90 \<and>
   calculateHRVMetrics [800, 810] = Null \<and>
   estimateBreathingRate [1, 2, 3] 30 = Some Null \<and>
   pulseHarmonicAnalysis [1, 2, 3] 30 False = Some Null"
  using short_inputs_absent[of "[800, 810]" "[1, 2, 3]" 30 False] by simp

section \<open>Breathing rate: implausible results are discarded\<close>

lemma js_round_bounds:
  "8 \<le> x \<Longrightarrow> x \<le> 35 \<Longrightarrow> 8 \<le> js_round x \<and> js_round x \<le> 35"
  unfolding js_round_def by (simp add: le_floor_iff floor_le_iff)

lemma breathingRate_of_range:
  "breathingRate_of n fps a = Null \<or>
   (\<exists>r. breathingRate_of n fps a = Value r \<and> 8 \<le> r \<and> r \<le> 35)"
  unfolding breathingRate_of_def Let_def
  using js_round_bounds by auto

text \<open>
  Claim C8: for every signal and every frame rate, a call of \<open>estimateBreathingRate\<close>
  that returns gives either \<^verbatim>\<open>null\<close> or a rate between 8 and 35 breaths per minute: a
  peak that maps outside that range is not reported.  The call returns whenever the
  signal has at most \<open>2^29\<close> samples.
\<close>

theorem estimateBreathingRate_plausible:
  "(estimateBreathingRate signal fps = None \<or>
    estimateBreathingRate signal fps = Some Null \<or>
    (\<exists>r. estimateBreathingRate signal fps = Some (Value r) \<and> 8 \<le> r \<and> r \<le> 35)) \<and>
   (length signal \<le> 2 ^ 29 \<longrightarrow> estimateBreathingRate signal fps \<noteq> None)"
proof (intro conjI impI)
  show "estimateBreathingRate signal fps = None \<or>
    estimateBreathingRate signal fps = Some Null \<or>
    (\<exists>r. estimateBreathingRate signal fps = Some (Value r) \<and> 8 \<le> r \<and> r \<le> 35)"
    using breathingRate_of_range
    by (auto simp: estimateBreathingRate_def split: option.splits)
next
  assume "length signal \<le> 2 ^ 29"
  then show "estimateBreathingRate signal fps \<noteq> None"
    using estimateBreathingRate_returns[of signal fps] by auto
qed

theorem estimateBreathingRate_plausible_witness:
  "90 \<le> length (replicate 90 (0::real)) \<and> length (replicate 90 (0::real)) \<le> 2 ^ 29 \<and>
   (estimateBreathingRate (replicate 90 0) 30 = Some Null \<or>
    (\<exists>r. estimateBreathingRate (replicate 90 0) 30 = Some (Value r) \<and> 8 \<le> r \<and> r \<le> 35))"
proof -
  have h: "length (replicate 90 (0::real)) \<le> 2 ^ 29" by simp
  show ?thesis
    using h estimateBreathingRate_plausible[of "replicate 90 0" 30] by auto
qed

section \<open>Quality score in exact arithmetic\<close>




section \<open>The Welch estimator forms one segment\<close>

lemma welchSegmentation_single:
  assumes "1 \<le> len"
  shows "welchSegmentation len
           = (if len \<le> 2 ^ 30
              then Some \<lparr>segLen = len, step = len - 3 * len div 4, nSegs = Some 1\<rparr>
              else None)"
proof (cases "len \<le> 2 ^ 30")
  case True
  obtain j where j: "nextPow2 len = Some (2 ^ j)" "len \<le> 2 ^ j"
    using nextPow2_returns[OF True] by auto
  have "len - 3 * len div 4 \<noteq> 0" using assms by linarith
  then show ?thesis
    using j True by (simp add: welchSegmentation_def Let_def min_absorb2)
next
  case False
  then have "nextPow2 len = None" by (simp add: nextPow2_None_iff)
  then show ?thesis using False by (simp add: welchSegmentation_def)
qed

lemma segment_buffers_whole: "segment_buffers signal (length signal) 0 n = windowed signal n"
  by (simp add: segment_buffers_def windowed_def Let_def)

lemma accumulate_single:
  "map (\<lambda>i. replicate m (0::real) ! i + bin_power a i / real (1::nat)) [0..<m]
     = map (bin_power a) [0..<m]"
  by (rule map_cong) simp_all

text \<open>
  Claim C10: for every non-empty signal the segmentation, where \<open>nextPow2\<close> returns
  (up to \<open>2^30\<close> samples; beyond, the call never returns), has the signal length as
  segment length and a segment count of 1.  The fallback to \<open>fftHeartRate\<close> is not
  taken: the estimate is read from the power spectrum of the one windowed, zero-padded
  copy of the whole signal.
\<close>

theorem welch_single_segment:
  assumes "1 \<le> length signal"
  shows "welchSegmentation (length signal)
           = (if length signal \<le> 2 ^ 30
              then Some \<lparr>segLen = length signal,
                         step = length signal - 3 * length signal div 4,
                         nSegs = Some 1\<rparr>
              else None) \<and>
         welchFFTHeartRate signal fps
           = (case nextPow2 (length signal) of
                None \<Rightarrow> None
              | Some n \<Rightarrow>
                  (case spectrum signal n of
                     None \<Rightarrow> None
                   | Some a \<Rightarrow> Some (welchEstimate n fps (map (bin_power a) [0..<n div 2 + 1]))))"
proof (cases "length signal \<le> 2 ^ 30")
  case False
  then have "nextPow2 (length signal) = None" by (simp add: nextPow2_None_iff)
  then show ?thesis
    using False by (simp add: welchFFTHeartRate_def welchSegmentation_def)
next
  case True
  have seg: "welchSegmentation (length signal)
           = Some \<lparr>segLen = length signal,
                   step = length signal - 3 * length signal div 4,
                   nSegs = Some 1\<rparr>"
    using welchSegmentation_single[OF assms] True by simp
  obtain j where j: "nextPow2 (length signal) = Some (2 ^ j)"
    using nextPow2_returns[OF True] by auto
  define n :: nat where "n = 2 ^ j"
  have acc: "welch_accumulate signal (length signal) st 1 n (replicate (n div 2 + 1) 0) [0]
      = (case spectrum signal n of None \<Rightarrow> None
         | Some a \<Rightarrow> Some (map (bin_power a) [0..<n div 2 + 1]))" for st
    using accumulate_single[of "n div 2 + 1"]
    by (simp add: segment_buffers_whole spectrum_def del: upt_Suc replicate_Suc
          split: option.splits)
  have "welchFFTHeartRate signal fps
           = (case nextPow2 (length signal) of
                None \<Rightarrow> None
              | Some n \<Rightarrow>
                  (case spectrum signal n of
                     None \<Rightarrow> None
                   | Some a \<Rightarrow> Some (welchEstimate n fps (map (bin_power a) [0..<n div 2 + 1]))))"
    unfolding welchFFTHeartRate_def seg
    using j acc by (simp add: n_def[symmetric] split: option.splits)
  with seg True show ?thesis by simp
qed

theorem welch_single_segment_witness:
  "1 \<le> length [0, 2, 1, 2, 0 :: real] \<and>
   welchSegmentation (length [0, 2, 1, 2, 0 :: real])
     = Some \<lparr>segLen = 5, step = 2, nSegs = Some 1\<rparr> \<and>
   welchFFTHeartRate [0, 2, 1, 2, 0] 4
     = (case nextPow2 (length [0, 2, 1, 2, 0 :: real]) of
          None \<Rightarrow> None
        | Some n \<Rightarrow>
            (case spectrum [0, 2, 1, 2, 0] n of
               None \<Rightarrow> None
             | Some a \<Rightarrow> Some (welchEstimate n 4 (map (bin_power a) [0..<n div 2 + 1]))))"
proof -
  have h: "1 \<le> length [0, 2, 1, 2, 0 :: real]" by simp
  show ?thesis
    using h welch_single_segment[OF h, of 4] by simp
qed

section \<open>Fusion policy\<close>














section \<open>Signals of fewer than three samples\<close>

lemma nextPow2_2: "nextPow2 (Suc (Suc 0)) = Some 2"
  by (simp add: nextPow2_def nextPow2_loop.simps to_int32_def)

lemma replicate_2: "replicate 2 x = [x, x]"
  by (simp add: numeral_2_eq_2)

lemma spectrum_11: "spectrum [1, 1] 2 = Some ([0, 0], [0, 0])"
  by (simp add: spectrum_def windowed_def hann_def fft_def bit_reversal_def bitrev_step_def
     fft_stages.simps to_int32_def fft_stage_def fft_block_def butterfly_def Let_def upt_num
     replicate_2)

lemma fftHeartRate_11: "fftHeartRate [1, 1] 30 = Some 0"
  by (simp add: fftHeartRate_def nextPow2_2 spectrum_11 fftPeakBin_def fftRefinedBin_def
      peak_scan_def scan_step_def power_at_def Let_def upto.simps)

text \<open>
  Claim C3 as stated (no result for fewer than 3 samples) fails: on the two-sample
  signal \<open>[1, 1]\<close> the transform is computed (both windowed samples are 0, so is the
  spectrum) and \<open>fftHeartRate\<close> reports a heart rate of 0.
\<close>

theorem fftHeartRate_short_signal_reports:
  "length [1, 1 :: real] < 3 \<and>
   spectrum [1, 1] 2 = Some ([0, 0], [0, 0]) \<and>
   fftHeartRate [1, 1] 30 = Some 0"
  by (simp add: spectrum_11 fftHeartRate_11)

text \<open>
  Claim C3, amended: the transform and the two heart-rate estimators have no minimum
  length.  On a signal of fewer than 3 samples \<open>fftHeartRate\<close> and
  \<open>welchFFTHeartRate\<close> return a number; the absent result comes from the consumers
  that check their own minimum before they transform: \<open>assessSignalQuality\<close> (score
  0, unusable), \<open>estimateBreathingRate\<close> and \<open>pulseHarmonicAnalysis\<close> (\<^verbatim>\<open>null\<close>).
\<close>

theorem short_signal_behaviour:
  assumes "length signal < 3"
  shows "(\<exists>h. fftHeartRate signal fps = Some h) \<and>
         (\<exists>h. welchFFTHeartRate signal fps = Some h) \<and>
         assessSignalQuality signal fps = Some \<lparr>score = 0, usable = False, snr = Db 0\<rparr> \<and>
         estimateBreathingRate signal fps = Some Null \<and>
         pulseHarmonicAnalysis signal fps isStrict = Some Null"
proof -
  have "length signal \<le> 2 ^ 29" using assms by simp
  then show ?thesis
    using assms fftHeartRate_returns welchFFTHeartRate_returns
    by (simp add: assessSignalQuality_def estimateBreathingRate_def pulseHarmonicAnalysis_def)
qed

theorem short_signal_behaviour_witness:
  "length [1, 1 :: real] < 3 \<and>
   (\<exists>h. fftHeartRate [1, 1] 30 = Some h) \<and>
   (\<exists>h. welchFFTHeartRate [1, 1] 30 = Some h) \<and>
   assessSignalQuality [1, 1] 30 = Some \<lparr>score = 0, usable = False, snr = Db 0\<rparr> \<and>
   estimateBreathingRate [1, 1] 30 = Some Null \<and>
   pulseHarmonicAnalysis [1, 1] 30 False = Some Null"
proof -
  have h: "length [1, 1 :: real] < 3" by simp
  show ?thesis
    using h short_signal_behaviour[OF h, of 30 False] by blast
qed

section \<open>Harmonic profile\<close>

lemma demo_fundBin: "fundBin_of 32 30 demo_spectrum = 1"
  by (simp add: fundBin_of_def Let_def peak_scan_def scan_step_def mag_at_def power_at_def
       demo_spectrum_def upto.simps)

lemma demo_amps:
  "map (harmonic_amplitude 32 demo_spectrum 1) [0..<11] = [1, 1, 1, 0, 0, 0, 0, 1, 1, 1, 1]"
  by (simp add: harmonic_amplitude_def Let_def peak_scan_def scan_step_def mag_at_def power_at_def
       demo_spectrum_def upto.simps upt_num)

lemma pulseHarmonicAnalysis_profile:
  assumes "pulseHarmonicAnalysis signal fps isStrict = Some (Value p)"
  shows "\<exists>n a. harmonicProfile n fps isStrict a = Value p"
  using assms
  by (auto simp: pulseHarmonicAnalysis_def split: if_splits option.splits)

lemma harmonicProfile_Value:
  assumes "harmonicProfile n fps isStrict a = Value p"
  shows "\<exists>ff amps. length amps = 11 \<and> sum_list amps \<noteq> 0 \<and>
           totalEnergy p = sum_list amps \<and>
           harmonics p = map (harmonic_record isStrict ff amps (sum_list amps)) [0..<11] \<and>
           constitution p = constitution_of isStrict (harmonics p)"
proof -
  define amps where "amps = map (harmonic_amplitude n a (fundBin_of n fps a)) [0..<11]"
  define ff where "ff = real_of_int (fundBin_of n fps a) * fps / real n"
  have len: "length amps = 11" by (simp add: amps_def)
  have nz: "fps \<noteq> 0 \<and> sum_list amps \<noteq> 0"
    using assms unfolding harmonicProfile_def Let_def amps_def[symmetric]
    by (auto split: if_splits)
  then have "p = \<lparr>harmonics = map (harmonic_record isStrict ff amps (sum_list amps)) [0..<11],
        fundFreq = real_of_int (js_round (ff * 100)) / 100,
        constitution = constitution_of isStrict
          (map (harmonic_record isStrict ff amps (sum_list amps)) [0..<11]),
        totalEnergy = sum_list amps,
        healthyOrder = healthyOrder_of
          (map (harmonic_record isStrict ff amps (sum_list amps)) [0..<11]),
        strict = isStrict\<rparr>"
    using assms unfolding harmonicProfile_def Let_def amps_def[symmetric] ff_def[symmetric]
    by (simp del: upt_Suc)
  then have "totalEnergy p = sum_list amps \<and>
      harmonics p = map (harmonic_record isStrict ff amps (sum_list amps)) [0..<11] \<and>
      constitution p = constitution_of isStrict (harmonics p)"
    by simp
  then show ?thesis using len nz by blast
qed

text \<open>
  Over the reals the eleven percentages of a non-zero total sum to 100.  Over doubles
  an infinite total makes them NaN: see the section on the harmonic percentages of an
  impulse of large amplitude.
\<close>

lemma percentage_sum:
  assumes "length amps = 11" and "sum_list amps \<noteq> 0"
  shows "sum_list (map percentage (map (harmonic_record s ff amps (sum_list amps)) [0..<11])) = 100"
proof -
  have "map percentage (map (harmonic_record s ff amps (sum_list amps)) [0..<11])
      = map (\<lambda>x. x / sum_list amps * 100) (map (\<lambda>h. amps ! h) [0..<length amps])"
    unfolding assms(1) by (simp add: harmonic_record_def Let_def del: upt_Suc)
  also have "\<dots> = map (\<lambda>x. x / sum_list amps * 100) amps"
    by (simp only: map_nth)
  finally have "sum_list (map percentage (map (harmonic_record s ff amps (sum_list amps)) [0..<11]))
      = sum_list (map (\<lambda>x. x * (100 / sum_list amps)) amps)"
    by (simp add: field_simps)
  also have "\<dots> = sum_list amps * (100 / sum_list amps)"
    using sum_list_mult_const[of "\<lambda>x. x" "100 / sum_list amps" amps] by simp
  also have "\<dots> = 100" using assms(2) by simp
  finally show ?thesis .
qed

lemma demo_profile:
  "\<exists>p. harmonicProfile 32 30 False demo_spectrum = Value p \<and>
       percentage (harmonics p ! 0) = 100 / 7 \<and> percentage (harmonics p ! 3) = 0 \<and>
       percentage (harmonics p ! 2) = 100 / 7"
  unfolding harmonicProfile_def Let_def demo_fundBin demo_amps
  by (simp add: harmonic_record_def Let_def upt_num)

text \<open>
  Claim C6: in every profile the analysis returns, when the percentages of C0 and of C3
  are both below the minimum of their expected range (rule (a)), the constitution is the
  combined heart/spleen deficiency, whatever the later rules of the cascade would say.
\<close>

theorem constitution_rule_a_first:
  assumes "harmonicProfile n fps isStrict a = Value p \<or>
           pulseHarmonicAnalysis signal fps isStrict = Some (Value p)"
      and "percentage (harmonics p ! 0) < fst (expectedRanges isStrict ! 0)"
      and "percentage (harmonics p ! 3) < fst (expectedRanges isStrict ! 3)"
  shows "constitution p = HeartSpleenDeficiency"
proof -
  obtain n' a' where "harmonicProfile n' fps isStrict a' = Value p"
    using assms(1) pulseHarmonicAnalysis_profile by blast
  then have "constitution p = constitution_of isStrict (harmonics p)"
    using harmonicProfile_Value by blast
  then show ?thesis using assms(2,3) by (simp add: constitution_of_def Let_def)
qed

text \<open>
  The profile of the test spectrum satisfies rule (a) together with rule (d) (C3 below
  0.6 of its minimum): its label is that of rule (a).
\<close>

theorem constitution_rule_a_first_witness:
  "\<exists>p. harmonicProfile 32 30 False demo_spectrum = Value p \<and>
       percentage (harmonics p ! 0) < fst (expectedRanges False ! 0) \<and>
       percentage (harmonics p ! 3) < fst (expectedRanges False ! 3) \<and>
       percentage (harmonics p ! 3) < fst (expectedRanges False ! 3) * defMult False \<and>
       constitution p = HeartSpleenDeficiency"
proof -
  obtain p where p: "harmonicProfile 32 30 False demo_spectrum = Value p"
      "percentage (harmonics p ! 0) = 100 / 7" "percentage (harmonics p ! 3) = 0"
      "percentage (harmonics p ! 2) = 100 / 7"
    using demo_profile by blast
  have h1: "harmonicProfile 32 30 False demo_spectrum = Value p \<or>
      pulseHarmonicAnalysis [] 30 False = Some (Value p)"
    using p(1) by simp
  have h2: "percentage (harmonics p ! 0) < fst (expectedRanges False ! 0)"
    using p(2) by (simp add: expectedRanges_def)
  have h3: "percentage (harmonics p ! 3) < fst (expectedRanges False ! 3)"
    using p(3) by (simp add: expectedRanges_def)
  have h4: "percentage (harmonics p ! 3) < fst (expectedRanges False ! 3) * defMult False"
    using p(3) by (simp add: expectedRanges_def defMult_def)
  show ?thesis
    using p(1) h2 h3 h4 constitution_rule_a_first[OF h1 h2 h3] by blast
qed

section \<open>Parabolic refinement\<close>

text \<open>
  The Welch estimator reports \<open>peakBin + delta\<close> only under the guard
  \<open>\<bar>delta\<bar> < 1\<close>: its refined bin is strictly between the neighbours of the peak bin.
\<close>

lemma welchRefinedBin_between:
  "real_of_int k - 1 < welchRefinedBin avg lo hi k \<and>
   welchRefinedBin avg lo hi k < real_of_int k + 1"
proof -
  have guard: "real_of_int k - 1 < (if \<bar>d\<bar> < 1 then real_of_int k + d else real_of_int k) \<and>
      (if \<bar>d\<bar> < 1 then real_of_int k + d else real_of_int k) < real_of_int k + 1" for d :: real
    by auto
  show ?thesis
  proof (cases "avg_at avg (k - 1)")
    case None
    then show ?thesis by (simp add: welchRefinedBin_def)
  next
    case a: (Some a)
    show ?thesis
    proof (cases "avg_at avg k")
      case None
      then show ?thesis using a by (simp add: welchRefinedBin_def)
    next
      case b: (Some b)
      show ?thesis
      proof (cases "avg_at avg (k + 1)")
        case None
        then show ?thesis using a b by (simp add: welchRefinedBin_def)
      next
        case c: (Some c)
        have "welchRefinedBin avg lo hi k = real_of_int k \<or>
            welchRefinedBin avg lo hi k
              = (if \<bar>(a - c) / (2 * (a - 2 * b + c))\<bar> < 1
                 then real_of_int k + (a - c) / (2 * (a - 2 * b + c)) else real_of_int k)"
          unfolding welchRefinedBin_def Let_def a b c
          by (cases "lo < k \<and> real_of_int k < hi"; cases "2 * (a - 2 * b + c) \<noteq> 0";
              simp only: option.case prod.case if_True if_False simp_thms)
        then show ?thesis using guard[of "(a - c) / (2 * (a - 2 * b + c))"] by auto
      qed
    qed
  qed
qed

text \<open>
  The single-window estimator has no such guard.  Where the peak bin holds at least the
  power of both neighbours the parabola's vertex is within half a bin; the peak of the
  scan, however, is the largest bin of the search band only, and a neighbour outside the
  band can hold more.
\<close>

lemma parabolic_delta_local_peak:
  assumes "a \<le> b" and "c \<le> b"
  shows "\<bar>parabolic_delta a b c\<bar> \<le> 1 / 2"
proof (cases "2 * (a - 2 * b + c) = 0")
  case True
  then show ?thesis by (simp add: parabolic_delta_def)
next
  case False
  then have "a - 2 * b + c \<noteq> 0" by simp
  moreover have "a - 2 * b + c \<le> 0" using assms by linarith
  ultimately have neg: "a - 2 * b + c < 0" by (simp add: less_le)
  have "\<bar>a - c\<bar> \<le> - (a - 2 * b + c)" using assms by linarith
  then have "\<bar>a - c\<bar> / \<bar>2 * (a - 2 * b + c)\<bar> \<le> 1 / 2"
    using neg by (simp add: field_simps)
  then show ?thesis using False by (simp add: parabolic_delta_def)
qed

lemma nextPow2_5: "nextPow2 5 = Some 8"
  by (simp add: nextPow2_def nextPow2_loop.simps to_int32_def)

lemma cos_3pi2: "cos (pi * 3 / 2) = 0"
  using cos_3over2_pi by (simp add: mult.commute)

lemma replicate_3: "replicate 3 x = [x, x, x]"
  by (simp add: numeral_3_eq_3)

lemma replicate_8: "replicate 8 x = [x, x, x, x, x, x, x, x]"
  by (simp add: eval_nat_numeral)

lemma five_sample_windowed: "windowed [0, 2, 1, 2, 0] 8 = ([0, 1, 1, 1, 0, 0, 0, 0], [0, 0, 0, 0, 0, 0, 0, 0])"
  by (simp add: windowed_def hann_def upt_num cos_3pi2 replicate_3 replicate_8)

lemma five_sample_reversed:
  "bit_reversal 8 ([0, 1, 1, 1, 0, 0, 0, 0], [0, 0, 0, 0, 0, 0, 0, 0])
     = ([0, 0, 1, 0, 1, 0, 1, 0], [0, 0, 0, 0, 0, 0, 0, 0])"
  by (simp add: bit_reversal_def upt_num bitrev_step_def Let_def swap_def)

lemma five_sample_stage2:
  "fft_stage 2 8 ([0, 0, 1, 0, 1, 0, 1, 0], [0, 0, 0, 0, 0, 0, 0, 0])
     = ([0, 0, 1, 1, 1, 1, 1, 1], [0, 0, 0, 0, 0, 0, 0, 0])"
  by (simp add: fft_stage_def fft_block_def butterfly_def Let_def upt_num)

lemma five_sample_stage4:
  "fft_stage 4 8 ([0, 0, 1, 1, 1, 1, 1, 1], [0, 0, 0, 0, 0, 0, 0, 0])
     = ([1, 0, - 1, 0, 2, 1, 0, 1], [0, - 1, 0, 1, 0, - 1, 0, 1])"
  by (simp add: fft_stage_def fft_block_def butterfly_def Let_def upt_num)

lemma five_sample_stage8:
  "fft_stage 8 8 ([1, 0, - 1, 0, 2, 1, 0, 1], [0, - 1, 0, 1, 0, - 1, 0, 1])
     = ([3, 0, - 1, 0, - 1, 0, - 1, 0],
        [0, - 1 - sqrt 2, 0, 1 - sqrt 2, 0, sqrt 2 - 1, 0, 1 + sqrt 2])"
  by (simp add: fft_stage_def fft_block_def butterfly_def Let_def upt_num cos_45 sin_45)

lemma five_sample_transform:
  "spectrum [0, 2, 1, 2, 0] 8
     = Some ([3, 0, - 1, 0, - 1, 0, - 1, 0],
             [0, - 1 - sqrt 2, 0, 1 - sqrt 2, 0, sqrt 2 - 1, 0, 1 + sqrt 2])"
  by (simp add: spectrum_def five_sample_windowed fft_def five_sample_reversed fft_stages.simps to_int32_def
        five_sample_stage2 five_sample_stage4 five_sample_stage8)

lemma sqrt2_sq: "sqrt 2 * sqrt 2 = 2"
  by simp

lemma sqrt2_gt1: "1 < sqrt 2"
  by simp

lemma five_sample_powers:
  "power_at five_sample_spectrum 0 = Some 9"
  "power_at five_sample_spectrum 1 = Some (3 + 2 * sqrt 2)"
  "power_at five_sample_spectrum 2 = Some 1"
  "power_at five_sample_spectrum 3 = Some (3 - 2 * sqrt 2)"
  "power_at five_sample_spectrum 4 = Some 1"
  by (simp_all add: power_at_def five_sample_spectrum_def algebra_simps)

text \<open>
  Both outcomes of the range test of \<open>estimateBreathingRate\<close>, on the spectrum of the
  five-sample signal: at 4 frames per second the peak bin 1 maps to 30 breaths per minute
  and is reported; at 30 frames per second it maps to 225 and is discarded.
\<close>

lemma breathing_reported: "breathingRate_of 8 4 five_sample_spectrum = Value 30"
proof -
  have "0 < 3 + 2 * sqrt 2" using sqrt2_gt1 by linarith
  then show ?thesis
    by (simp add: breathingRate_of_def Let_def peak_scan_def scan_step_def five_sample_powers
          upto.simps js_round_def)
qed

lemma breathing_discarded: "breathingRate_of 8 30 five_sample_spectrum = Null"
proof -
  have "0 < 3 + 2 * sqrt 2" using sqrt2_gt1 by linarith
  then show ?thesis
    by (simp add: breathingRate_of_def Let_def peak_scan_def scan_step_def five_sample_powers
          upto.simps js_round_def)
qed

lemma five_sample_peak: "fftPeakBin 8 4 five_sample_spectrum = 1"
proof -
  have "0 < sqrt 2" by simp
  then have "0 < 3 + 2 * sqrt 2" "\<not> 2 + 2 * sqrt 2 < 0" by linarith+
  then show ?thesis
    by (simp add: fftPeakBin_def Let_def peak_scan_def scan_step_def five_sample_powers upto.simps)
qed

lemma five_sample_delta: "parabolic_delta 9 (3 + 2 * sqrt 2) 1 = - 1 - sqrt 2"
proof -
  have ne: "8 - 8 * sqrt 2 \<noteq> 0" using sqrt2_gt1 by simp
  have "(- 1 - sqrt 2) * (8 - 8 * sqrt 2) = 8" by (simp add: algebra_simps)
  then have "8 / (8 - 8 * sqrt 2) = - 1 - sqrt 2"
    using ne by (simp add: divide_eq_eq)
  moreover have "2 * (9 - 2 * (3 + 2 * sqrt 2) + 1) = 8 - 8 * sqrt 2" by simp
  ultimately show ?thesis
    unfolding parabolic_delta_def using ne by simp
qed

lemma five_sample_refined: "fftRefinedBin 8 five_sample_spectrum 1 = - sqrt 2"
  using five_sample_powers five_sample_delta by (simp add: fftRefinedBin_def)

lemma five_sample_rate: "fftHeartRate [0, 2, 1, 2, 0] 4 = Some (- (30 * sqrt 2))"
proof -
  have "length [0, 2, 1, 2, 0 :: real] = 5" by simp
  then have "fftHeartRate [0, 2, 1, 2, 0] 4
      = Some (fftRefinedBin 8 five_sample_spectrum (fftPeakBin 8 4 five_sample_spectrum) * 4 / real (8::nat) * 60)"
    unfolding fftHeartRate_def by (simp only: nextPow2_5 five_sample_transform five_sample_spectrum_def option.case)
  then show ?thesis by (simp add: five_sample_peak five_sample_refined)
qed

text \<open>
  Claim C2 fails for \<open>fftHeartRate\<close>.  On the signal \<open>[0, 2, 1, 2, 0]\<close> at 4 frames per
  second the search band starts at bin 1, which is also its peak (power \<open>3 + 2 * sqrt 2\<close>),
  while bin 0, outside the band, holds power 9.  The refinement moves the peak by
  \<open>- 1 - sqrt 2\<close> bins to the bin value \<open>- sqrt 2\<close>, below \<open>peakBin - 1 = 0\<close>, and
  the reported heart rate is negative.
\<close>

theorem fftHeartRate_refinement_unbounded:
  "spectrum [0, 2, 1, 2, 0] 8 = Some five_sample_spectrum \<and>
   fftPeakBin 8 4 five_sample_spectrum = 1 \<and>
   fftRefinedBin 8 five_sample_spectrum 1 = - sqrt 2 \<and>
   fftRefinedBin 8 five_sample_spectrum (fftPeakBin 8 4 five_sample_spectrum)
     < real_of_int (fftPeakBin 8 4 five_sample_spectrum) - 1 \<and>
   fftHeartRate [0, 2, 1, 2, 0] 4 = Some (- (30 * sqrt 2))"
  by (simp add: five_sample_transform five_sample_spectrum_def[symmetric] five_sample_peak
        five_sample_refined five_sample_rate)

section \<open>Arithmetic of doubles\<close>

lemma max_lo: "10 ^ 308 \<le> MAX_VALUE"
  by (simp add: MAX_VALUE_def)

lemma max_pos: "0 < MAX_VALUE"
  by (simp add: MAX_VALUE_def)

lemma overflow_Num: "\<bar>r\<bar> \<le> MAX_VALUE \<Longrightarrow> overflow r = Num r"
  by (auto simp: overflow_def)

lemma overflow_0 [simp]: "overflow 0 = Num 0"
  using max_pos by (simp add: overflow_def)

lemma pow_le_max: "m \<le> 64 \<Longrightarrow> 2 ^ m \<le> MAX_VALUE"
proof -
  assume "m \<le> 64"
  then have "(2::real) ^ m \<le> 2 ^ 64" by (intro power_increasing) simp_all
  also have "\<dots> \<le> MAX_VALUE" by (simp add: MAX_VALUE_def)
  finally show ?thesis .
qed

lemma nextPow2_60: "nextPow2 60 = Some 64"
  by (simp add: nextPow2_def nextPow2_loop.simps to_int32_def)

lemma nextPow2_90: "nextPow2 90 = Some 128"
  by (simp add: nextPow2_def nextPow2_loop.simps to_int32_def)

lemma fft_stages_d_64:
  "fft_stages_d 2 64 a =
     Some (fft_stage_d 64 64 (fft_stage_d 32 64 (fft_stage_d 16 64 (fft_stage_d 8 64
            (fft_stage_d 4 64 (fft_stage_d 2 64 a))))))"
  by (simp add: fft_stages_d.simps to_int32_def)

lemma fft_stages_d_128:
  "fft_stages_d 2 128 a =
     Some (fft_stage_d 128 128 (fft_stage_d 64 128 (fft_stage_d 32 128 (fft_stage_d 16 128
            (fft_stage_d 8 128 (fft_stage_d 4 128 (fft_stage_d 2 128 a)))))))"
  by (simp add: fft_stages_d.simps to_int32_def)

section \<open>Quality score of a waveform of large amplitude\<close>

text \<open>
  The clamp \<^verbatim>\<open>Math.min(99, Math.max(0, Math.round(score)))\<close> yields an integer from 0 to
  99 on every number and on both infinities; the contributions of \<^verbatim>\<open>snr\<close> and \<^verbatim>\<open>par\<close>
  are finite whatever their arguments.  So the score is an integer from 0 to 99 unless
  the stationarity ratio is NaN, and NaN when it is.
\<close>

lemma clamp_range:
  assumes "v \<noteq> NaN"
  shows "\<exists>k. Math_min (Num 99) (Math_max (Num 0) (Math_round v)) = Num (real_of_int k) \<and>
             0 \<le> k \<and> k \<le> 99"
proof (cases v)
  case (Num x)
  define r where "r = js_round x"
  consider "r < 0" | "99 < r" | "0 \<le> r" "r \<le> 99" by linarith
  then show ?thesis
  proof cases
    case 1
    then have "Math_min (Num 99) (Math_max (Num 0) (Math_round v)) = Num (real_of_int 0)"
      using Num by (simp add: Math_min_def Math_max_def r_def)
    then show ?thesis by (intro exI[of _ 0]) simp
  next
    case 2
    then have "Math_min (Num 99) (Math_max (Num 0) (Math_round v)) = Num (real_of_int 99)"
      using Num by (simp add: Math_min_def Math_max_def r_def)
    then show ?thesis by (intro exI[of _ 99]) simp
  next
    case 3
    then have "Math_min (Num 99) (Math_max (Num 0) (Math_round v)) = Num (real_of_int r)"
      using Num by (simp add: Math_min_def Math_max_def r_def)
    then show ?thesis using 3 by (intro exI[of _ r]) simp
  qed
next
  case PosInf
  then have "Math_min (Num 99) (Math_max (Num 0) (Math_round v)) = Num (real_of_int 99)"
    by (simp add: Math_min_def Math_max_def)
  then show ?thesis by (intro exI[of _ 99]) simp
next
  case NegInf
  then have "Math_min (Num 99) (Math_max (Num 0) (Math_round v)) = Num (real_of_int 0)"
    by (simp add: Math_min_def Math_max_def)
  then show ?thesis by (intro exI[of _ 0]) simp
next
  case NaN
  then show ?thesis using assms by simp
qed

lemma scaled_excess:
  assumes "num_gt v (Num t)" "0 < k"
  shows "num_mul (num_sub v (Num t)) (Num k) = PosInf \<or>
         (\<exists>z. 0 < z \<and> num_mul (num_sub v (Num t)) (Num k) = Num z)"
proof (cases v)
  case (Num x)
  then have x: "0 < x - t" using assms(1) by simp
  then have p: "0 < (x - t) * k" using assms(2) by simp
  then have n: "\<not> (x - t) * k < - MAX_VALUE" using max_pos by linarith
  show ?thesis
    using x p n assms(2) max_pos by (auto simp: Num num_sub_def overflow_def)
next
  case PosInf
  then show ?thesis using assms(2) by (simp add: num_sub_def)
next
  case NegInf
  then show ?thesis using assms(1) by simp
next
  case NaN
  then show ?thesis using assms(1) by simp
qed

lemma scaled_positive:
  assumes "num_gt v (Num 0)" "0 < k"
  shows "num_mul v (Num k) = PosInf \<or> (\<exists>z. 0 < z \<and> num_mul v (Num k) = Num z)"
proof (cases v)
  case (Num x)
  then have p: "0 < x * k" using assms by simp
  then have "\<not> x * k < - MAX_VALUE" using max_pos by linarith
  then show ?thesis using p by (auto simp: Num overflow_def)
next
  case PosInf
  then show ?thesis using assms(2) by simp
next
  case NegInf
  then show ?thesis using assms(1) by simp
next
  case NaN
  then show ?thesis using assms(1) by simp
qed

lemma contribution:
  assumes "0 < cap" "0 \<le> s" "s + cap \<le> MAX_VALUE"
    and "p = PosInf \<or> (\<exists>z. 0 < z \<and> p = Num z)"
  shows "\<exists>m. num_add (Num s) (Math_min (Num cap) p) = Num m \<and> s \<le> m \<and> m \<le> s + cap"
proof -
  have fin: "overflow (s + m) = Num (s + m)" if "0 \<le> m" "m \<le> cap" for m
    using that assms(1-3) by (intro overflow_Num) simp
  from assms(4) show ?thesis
  proof
    assume "p = PosInf"
    then show ?thesis using fin[of cap] assms(1) by (simp add: Math_min_def)
  next
    assume "\<exists>z. 0 < z \<and> p = Num z"
    then obtain z where z: "0 < z" "p = Num z" by blast
    then have "Math_min (Num cap) p = Num (min cap z)" by (simp add: Math_min_def min_def)
    then show ?thesis using fin[of "min cap z"] z(1) assms(1) by simp
  qed
qed

lemma combinedScore_d_range:
  assumes "stationarity_d signal \<noteq> NaN"
  shows "\<exists>k. combinedScore_d snrv par signal = Num (real_of_int k) \<and> 0 \<le> k \<and> k \<le> 99"
proof -
  have M: "(100::real) \<le> MAX_VALUE" by (simp add: MAX_VALUE_def)
  define s1 where "s1 = (if num_gt snrv (Num 0)
      then num_add (Num 0) (Math_min (Num 40) (num_mul snrv (Num 8))) else Num 0)"
  define s2 where "s2 = (if num_gt par (Num 2)
      then num_add s1 (Math_min (Num 35) (num_mul (num_sub par (Num 2)) (Num 7))) else s1)"
  obtain m1 where m1: "s1 = Num m1" "0 \<le> m1" "m1 \<le> 40"
  proof (cases "num_gt snrv (Num 0)")
    case True
    then obtain m where "num_add (Num 0) (Math_min (Num 40) (num_mul snrv (Num 8))) = Num m"
        "0 \<le> m" "m \<le> 0 + 40"
      using contribution[of 40 0, OF _ _ _ scaled_positive[OF True, of 8]] M by auto
    then show ?thesis using that True by (simp add: s1_def)
  next
    case False
    then show ?thesis using that by (simp add: s1_def)
  qed
  obtain m2 where m2: "s2 = Num m2"
  proof (cases "num_gt par (Num 2)")
    case True
    then obtain m where "num_add (Num m1) (Math_min (Num 35) (num_mul (num_sub par (Num 2)) (Num 7))) = Num m"
      using contribution[of 35 m1, OF _ _ _ scaled_excess[OF True, of 7]] M m1 by auto
    then show ?thesis using that True by (simp add: s2_def m1)
  next
    case False
    then show ?thesis using that m1 by (simp add: s2_def)
  qed
  have "num_add (Num m2) (num_mul (stationarity_d signal) (Num 25)) \<noteq> NaN"
    using assms by (cases "stationarity_d signal") (simp_all add: overflow_def)
  then have "\<exists>k. Math_min (Num 99) (Math_max (Num 0) (Math_round
               (num_add (Num m2) (num_mul (stationarity_d signal) (Num 25)))))
             = Num (real_of_int k) \<and> 0 \<le> k \<and> k \<le> 99"
    by (rule clamp_range)
  then show ?thesis
    unfolding combinedScore_d_def Let_def s1_def[symmetric] s2_def[symmetric] m2 .
qed

lemma combinedScore_d_NaN: "stationarity_d signal = NaN \<Longrightarrow> combinedScore_d snrv par signal = NaN"
proof -
  assume st: "stationarity_d signal = NaN"
  have "num_add x NaN = NaN" for x by (cases x) simp_all
  then show ?thesis
    by (simp add: combinedScore_d_def Let_def st Math_min_def Math_max_def)
qed

lemma assessSignalQuality_d_score:
  assumes "assessSignalQuality_d signal fps = Some q"
  shows "(60 \<le> length signal \<and> stationarity_d signal = NaN \<and> score_d q = NaN) \<or>
         (\<exists>k. score_d q = Num (real_of_int k) \<and> 0 \<le> k \<and> k \<le> 99)"
proof (cases "length signal < 60")
  case True
  then have "score_d q = Num (real_of_int 0)"
    using assms by (auto simp: assessSignalQuality_d_def)
  then show ?thesis by (intro disjI2 exI[of _ 0]) simp
next
  case False
  then obtain n a where q: "q = quality_of_d signal fps n a"
    using assms by (auto simp: assessSignalQuality_d_def split: option.splits)
  obtain sp tp pp where bp: "band_powers_d n fps a = (sp, tp, pp)"
    by (cases "band_powers_d n fps a") auto
  have "\<exists>snrv par. score_d q = combinedScore_d snrv par signal"
    unfolding q quality_of_d_def bp Let_def prod.case quality_d.simps by (intro exI) (rule refl)
  then obtain snrv par where sc: "score_d q = combinedScore_d snrv par signal"
    by blast
  show ?thesis
  proof (cases "stationarity_d signal = NaN")
    case True
    then show ?thesis using False sc combinedScore_d_NaN[of signal snrv par] by simp
  next
    case False
    then show ?thesis using sc combinedScore_d_range[of signal snrv par] by simp
  qed
qed

text \<open>
  On a list that alternates between \<open>-x\<close> and \<open>x\<close> the mean is 0; when \<open>x * x\<close> is a
  finite double and \<open>2 * (x * x)\<close> is not, the sum of squares is \<open>Infinity\<close> after two
  samples and stays there, so \<^verbatim>\<open>arrayStd\<close> returns \<open>Infinity\<close>.
\<close>

lemma alternating_sum:
  assumes "\<bar>x\<bar> \<le> MAX_VALUE"
  shows "foldl (\<lambda>a b. num_add a (Num b)) (Num 0) (concat (replicate k [- x, x])) = Num 0"
  using assms by (induction k) (simp_all add: overflow_Num)

lemma alternating_squares_inf:
  assumes "\<bar>x\<bar> \<le> MAX_VALUE" and "x * x \<le> MAX_VALUE"
  shows "foldl (\<lambda>s v. num_add s (let d = num_sub (Num v) (Num 0) in num_mul d d)) PosInf
           (concat (replicate k [- x, x])) = PosInf"
  using assms by (induction k) (simp_all add: overflow_Num num_sub_def)

lemma alternating_squares:
  assumes "\<bar>x\<bar> \<le> MAX_VALUE" and "x * x \<le> MAX_VALUE" and "MAX_VALUE < 2 * (x * x)"
  shows "foldl (\<lambda>s v. num_add s (let d = num_sub (Num v) (Num 0) in num_mul d d)) (Num 0)
           (concat (replicate (Suc k) [- x, x])) = PosInf"
proof -
  have "overflow (x * x + x * x) = PosInf"
    using assms(3) by (simp add: overflow_def)
  then show ?thesis
    using assms alternating_squares_inf[OF assms(1,2), of k]
    by (simp add: overflow_Num num_sub_def)
qed

lemma alternating_length: "length (concat (replicate k [a, b])) = 2 * k"
  by (induction k) simp_all

lemma alternating_std:
  assumes "\<bar>x\<bar> \<le> MAX_VALUE" and "x * x \<le> MAX_VALUE" and "MAX_VALUE < 2 * (x * x)"
  shows "arrayStd_d (concat (replicate (Suc k) [- x, x])) = PosInf"
proof -
  define xs where "xs = concat (replicate (Suc k) [- x, x])"
  have len: "length xs = 2 * Suc k"
    unfolding xs_def by (rule alternating_length)
  have s: "foldl (\<lambda>a b. num_add a (Num b)) (Num 0) xs = Num 0"
    unfolding xs_def by (rule alternating_sum[OF assms(1)])
  have m: "num_div (Num 0) (Num (real (2 * Suc k))) = Num 0"
    by simp
  have q: "foldl (\<lambda>s v. num_add s (let d = num_sub (Num v) (Num 0) in num_mul d d)) (Num 0) xs
             = PosInf"
    unfolding xs_def by (rule alternating_squares[OF assms])
  have "arrayStd_d xs = PosInf"
    unfolding arrayStd_d_def Let_def len s m
    using q unfolding Let_def by simp
  then show ?thesis unfolding xs_def .
qed

lemma alternating_stationarity:
  assumes "\<bar>x\<bar> \<le> MAX_VALUE" and "x * x \<le> MAX_VALUE" and "MAX_VALUE < 2 * (x * x)"
  shows "stationarity_d (concat (replicate (2 * Suc k) [- x, x])) = NaN"
proof -
  define h where "h = concat (replicate (Suc k) [- x, x])"
  have split: "concat (replicate (2 * Suc k) [- x, x]) = h @ h"
    unfolding h_def mult_2 replicate_add concat_append ..
  have len: "length h = 2 * Suc k"
    unfolding h_def by (rule alternating_length)
  have std: "arrayStd_d h = PosInf"
    unfolding h_def by (rule alternating_std[OF assms])
  have half: "length (h @ h) div 2 = length h"
    by simp
  show ?thesis
    unfolding split stationarity_d_def Let_def half
    by (simp add: std Math_min_def Math_max_def)
qed

lemma big_sample:
  "\<bar>10 ^ 154 :: real\<bar> \<le> MAX_VALUE" "(10 ^ 154 :: real) * 10 ^ 154 \<le> MAX_VALUE"
  "MAX_VALUE < 2 * ((10 ^ 154 :: real) * 10 ^ 154)"
  by (simp_all add: MAX_VALUE_def)

lemma waveform_stationarity: "stationarity_d alternating_waveform = NaN"
proof -
  have "(30::nat) = 2 * Suc 14" by simp
  then have "alternating_waveform = concat (replicate (2 * Suc 14) [- (10 ^ 154), 10 ^ 154])"
    unfolding alternating_waveform_def by (rule arg_cong)
  then show ?thesis
    using alternating_stationarity[OF big_sample, of 14] by (simp only:)
qed

text \<open>
  Claim C5 fails on the sixty samples \<open>-10^154, 10^154, -10^154, \<dots>\<close>, at every frame
  rate.  The early return is not taken, the transform of the 64-point buffer returns,
  and whatever \<^verbatim>\<open>snr\<close> and \<^verbatim>\<open>par\<close> it yields, both halves of the waveform have the
  standard deviation \<open>Infinity\<close>, the stationarity ratio \<open>Infinity / Infinity\<close> is NaN,
  and \<^verbatim>\<open>Math.round\<close>, \<^verbatim>\<open>Math.max\<close> and \<^verbatim>\<open>Math.min\<close> keep it: \<open>assessSignalQuality\<close>
  returns the score NaN, which is not an integer from 0 to 99, with \<open>usable\<close> false.
\<close>

theorem assessSignalQuality_score_NaN:
  "\<exists>q. assessSignalQuality_d alternating_waveform fps = Some q \<and>
       score_d q = NaN \<and> usable_d q = False"
proof -
  have len: "length alternating_waveform = 60"
    by (simp add: alternating_waveform_def alternating_length)
  obtain a where a: "spectrum_d alternating_waveform 64 = Some a"
    by (simp add: spectrum_d_def fft_d_def fft_stages_d_64)
  have sc: "combinedScore_d snrv par alternating_waveform = NaN" for snrv par
    by (rule combinedScore_d_NaN[OF waveform_stationarity])
  have "assessSignalQuality_d alternating_waveform fps
          = Some (quality_of_d alternating_waveform fps 64 a)"
    by (simp add: assessSignalQuality_d_def len nextPow2_60 a)
  moreover have "score_d (quality_of_d alternating_waveform fps 64 a) = NaN"
    by (simp add: quality_of_d_def Let_def sc split: prod.splits)
  moreover have "usable_d (quality_of_d alternating_waveform fps 64 a) = False"
    by (simp add: quality_of_d_def Let_def sc split: prod.splits)
  ultimately show ?thesis by simp
qed

section \<open>The transform of an impulse over doubles\<close>

text \<open>
  A butterfly whose upper operand is 0 adds and subtracts \<open>cur * 0 = 0\<close>: it copies the
  lower entry to the upper one.  The twiddle factor \<open>cur\<close> stays finite (its magnitude at
  most doubles with each step, from 1, over at most 64 steps).
\<close>

lemma twiddle_step:
  assumes "\<bar>cr\<bar> \<le> B" "\<bar>ci\<bar> \<le> B" "\<bar>wr\<bar> \<le> 1" "\<bar>wi\<bar> \<le> 1" "2 * B \<le> MAX_VALUE"
  shows "\<exists>cr' ci'.
           num_sub (num_mul (Num cr) (Num wr)) (num_mul (Num ci) (Num wi)) = Num cr' \<and>
           num_add (num_mul (Num cr) (Num wi)) (num_mul (Num ci) (Num wr)) = Num ci' \<and>
           \<bar>cr'\<bar> \<le> 2 * B \<and> \<bar>ci'\<bar> \<le> 2 * B"
proof -
  have prod: "\<bar>a * b\<bar> \<le> B" if "\<bar>a\<bar> \<le> B" "\<bar>b\<bar> \<le> 1" for a b :: real
  proof -
    have "\<bar>a * b\<bar> = \<bar>a\<bar> * \<bar>b\<bar>" by (simp add: abs_mult)
    also have "\<dots> \<le> B * 1" using that by (intro mult_mono) simp_all
    finally show ?thesis by simp
  qed
  have B: "B \<le> MAX_VALUE" using assms(1,5) by linarith
  have p1: "\<bar>cr * wr\<bar> \<le> B" "\<bar>ci * wi\<bar> \<le> B" "\<bar>cr * wi\<bar> \<le> B" "\<bar>ci * wr\<bar> \<le> B"
    using assms prod by simp_all
  then have o: "overflow (cr * wr) = Num (cr * wr)" "overflow (ci * wi) = Num (ci * wi)"
      "overflow (cr * wi) = Num (cr * wi)" "overflow (ci * wr) = Num (ci * wr)"
    using B by (simp_all add: overflow_Num)
  have s: "\<bar>cr * wr - ci * wi\<bar> \<le> 2 * B" "\<bar>cr * wi + ci * wr\<bar> \<le> 2 * B"
    using p1 by linarith+
  then have "overflow (cr * wr - ci * wi) = Num (cr * wr - ci * wi)"
      "overflow (cr * wi + ci * wr) = Num (cr * wi + ci * wr)"
    using assms(5) by (simp_all add: overflow_Num)
  then show ?thesis using s by (simp add: o num_sub_def)
qed

lemma butterfly_d_zero:
  assumes "re ! (i + j + len div 2) = Num 0" "im ! (i + j + len div 2) = Num 0"
    and "re ! (i + j) = Num x" "im ! (i + j) = Num y"
    and "\<bar>x\<bar> \<le> MAX_VALUE" "\<bar>y\<bar> \<le> MAX_VALUE"
    and "0 < len div 2"
    and "i + j + len div 2 < length re" "i + j + len div 2 < length im"
  shows "butterfly_d len i w ((Num cr, Num ci), re, im) j =
     ((num_sub (num_mul (Num cr) (fst w)) (num_mul (Num ci) (snd w)),
       num_add (num_mul (Num cr) (snd w)) (num_mul (Num ci) (fst w))),
      re[i + j + len div 2 := Num x], im[i + j + len div 2 := Num y])"
proof -
  have t: "num_sub (num_mul (Num cr) (Num 0)) (num_mul (Num ci) (Num 0)) = Num 0"
      "num_add (num_mul (Num cr) (Num 0)) (num_mul (Num ci) (Num 0)) = Num 0"
    by (simp_all add: num_sub_def)
  have v: "num_sub (Num x) (Num 0) = Num x" "num_sub (Num y) (Num 0) = Num y"
      "num_add (Num x) (Num 0) = Num x" "num_add (Num y) (Num 0) = Num y"
    using assms(5,6) by (simp_all add: num_sub_def overflow_Num)
  have ne: "i + j \<noteq> i + j + len div 2" using assms(7) by simp
  have r: "(re[i + j + len div 2 := Num x])[i + j := Num x] = re[i + j + len div 2 := Num x]"
    using assms(3,7,8) by (simp add: list_update_same_conv)
  have m: "(im[i + j + len div 2 := Num y])[i + j := Num y] = im[i + j + len div 2 := Num y]"
    using assms(4,7,9) by (simp add: list_update_same_conv)
  have o: "overflow x = Num x" "overflow y = Num y"
    using assms(5,6) by (simp_all add: overflow_Num)
  show ?thesis
    unfolding butterfly_d_def Let_def prod.case assms(1-4) t v
    using ne r m by (simp add: o assms(3,4))
qed

lemma block_zero:
  assumes "length re = n" "length im = n" "i + 2 * (len div 2) \<le> n"
    and "\<forall>k. i \<le> k \<and> k < n \<longrightarrow> re ! k = Num 0 \<and> im ! k = Num 0"
    and "\<bar>wr\<bar> \<le> 1" "\<bar>wi\<bar> \<le> 1" "len div 2 \<le> 64" "0 < len div 2"
  shows "m \<le> len div 2 \<Longrightarrow>
         \<exists>cr ci. foldl (butterfly_d len i (Num wr, Num wi)) ((Num 1, Num 0), re, im) [0..<m]
                    = ((Num cr, Num ci), re, im) \<and> \<bar>cr\<bar> \<le> 2 ^ m \<and> \<bar>ci\<bar> \<le> 2 ^ m"
proof (induction m)
  case 0
  show ?case by simp
next
  case (Suc m)
  then obtain cr ci where st:
      "foldl (butterfly_d len i (Num wr, Num wi)) ((Num 1, Num 0), re, im) [0..<m]
         = ((Num cr, Num ci), re, im)" "\<bar>cr\<bar> \<le> 2 ^ m" "\<bar>ci\<bar> \<le> 2 ^ m"
    by auto
  have m: "m < len div 2" using Suc.prems by simp
  have hi: "i + m + len div 2 < n" using m assms(3) by simp
  have z: "re ! (i + m + len div 2) = Num 0" "im ! (i + m + len div 2) = Num 0"
      "re ! (i + m) = Num 0" "im ! (i + m) = Num 0"
    using assms(4) hi by simp_all
  have "2 * (2::real) ^ m = 2 ^ Suc m" by simp
  also have "\<dots> \<le> MAX_VALUE" using m assms(7) by (intro pow_le_max) simp
  finally have b: "2 * (2::real) ^ m \<le> MAX_VALUE" .
  obtain cr' ci' where c:
      "num_sub (num_mul (Num cr) (Num wr)) (num_mul (Num ci) (Num wi)) = Num cr'"
      "num_add (num_mul (Num cr) (Num wi)) (num_mul (Num ci) (Num wr)) = Num ci'"
      "\<bar>cr'\<bar> \<le> 2 * 2 ^ m" "\<bar>ci'\<bar> \<le> 2 * 2 ^ m"
    using twiddle_step[OF st(2,3) assms(5,6) b] by blast
  have same: "re[i + m + len div 2 := Num 0] = re" "im[i + m + len div 2 := Num 0] = im"
    using z hi assms(1,2) by (simp_all add: list_update_same_conv)
  have "butterfly_d len i (Num wr, Num wi) ((Num cr, Num ci), re, im) m
          = ((Num cr', Num ci'), re, im)"
    using butterfly_d_zero[where cr = cr and ci = ci and w = "(Num wr, Num wi)",
        OF z(1,2,3,4) _ _ assms(8)]
      hi assms(1,2) max_pos c(1,2) same by simp
  then have "foldl (butterfly_d len i (Num wr, Num wi)) ((Num 1, Num 0), re, im) [0..<Suc m]
               = ((Num cr', Num ci'), re, im)"
    using st(1) by simp
  then show ?case using c(3,4) by auto
qed

lemma fft_block_d_zero:
  assumes "length re = n" "length im = n" "i + 2 * (len div 2) \<le> n"
    and "\<forall>k. i \<le> k \<and> k < n \<longrightarrow> re ! k = Num 0 \<and> im ! k = Num 0"
    and "\<bar>wr\<bar> \<le> 1" "\<bar>wi\<bar> \<le> 1" "len div 2 \<le> 64" "0 < len div 2"
  shows "fft_block_d len (Num wr, Num wi) (re, im) i = (re, im)"
  using block_zero[OF assms, of "len div 2"] by (auto simp: fft_block_d_def)

lemma blocks_zero:
  assumes "length re = n" "length im = n"
    and "\<forall>k. M \<le> k \<and> k < n \<longrightarrow> re ! k = Num 0 \<and> im ! k = Num 0"
    and "\<bar>wr\<bar> \<le> 1" "\<bar>wi\<bar> \<le> 1" "len div 2 \<le> 64" "0 < len div 2"
  shows "\<forall>i \<in> set bs. M \<le> i \<and> i + 2 * (len div 2) \<le> n \<Longrightarrow>
         foldl (fft_block_d len (Num wr, Num wi)) (re, im) bs = (re, im)"
proof (induction bs)
  case Nil
  show ?case by simp
next
  case (Cons i bs)
  have i: "M \<le> i" "i + 2 * (len div 2) \<le> n" using Cons.prems by simp_all
  have z: "\<forall>k. i \<le> k \<and> k < n \<longrightarrow> re ! k = Num 0 \<and> im ! k = Num 0"
    using assms(3) i(1) by auto
  have "fft_block_d len (Num wr, Num wi) (re, im) i = (re, im)"
    by (rule fft_block_d_zero[OF assms(1,2) i(2) z assms(4-7)])
  then show ?case using Cons by simp
qed

lemma block_starts:
  assumes "0 < len" "nb * len = n" "0 < n"
  shows "map (\<lambda>m. m * len) [0..<(n + len - 1) div len] = 0 # map (\<lambda>m. m * len) [1..<nb]"
proof -
  have "(n + len - 1) div len = nb"
  proof (rule div_nat_eqI)
    show "len * nb \<le> n + len - 1" using assms by (simp add: mult.commute)
    show "n + len - 1 < len * Suc nb" using assms by (simp add: mult.commute)
  qed
  moreover have "0 < nb" using assms by (cases nb) simp_all
  ultimately show ?thesis by (simp add: upt_rec[of 0 nb])
qed

text \<open>
  Hence each stage after the first doubles the alternating prefix: the first block
  copies its lower half into its upper half, every other block is zero and stays zero.
\<close>

lemma impulse_stage_nth:
  "k < 128 \<Longrightarrow> fst (impulse_stage c L) ! k = (if k < L then Num ((- 1) ^ k * c) else Num 0)"
  "k < 128 \<Longrightarrow> snd (impulse_stage c L) ! k = Num 0"
  "length (fst (impulse_stage c L)) = 128" "length (snd (impulse_stage c L)) = 128"
  by (simp_all add: impulse_stage_def)

lemma impulse_stage_update:
  assumes "even L" "m < L" "L + m < 128"
  shows "(fst (impulse_stage c (L + m)))[L + m := Num ((- 1) ^ m * c)]
           = fst (impulse_stage c (L + Suc m))"
proof (rule nth_equalityI)
  show "length ((fst (impulse_stage c (L + m)))[L + m := Num ((- 1) ^ m * c)])
          = length (fst (impulse_stage c (L + Suc m)))"
    by (simp add: impulse_stage_nth)
next
  fix k
  assume "k < length ((fst (impulse_stage c (L + m)))[L + m := Num ((- 1) ^ m * c)])"
  then have k: "k < 128" by (simp add: impulse_stage_nth)
  have par: "(- 1 :: real) ^ (L + m) = (- 1) ^ m"
    using assms(1) by (simp add: power_add)
  show "(fst (impulse_stage c (L + m)))[L + m := Num ((- 1) ^ m * c)] ! k
          = fst (impulse_stage c (L + Suc m)) ! k"
  proof (cases "k = L + m")
    case True
    then show ?thesis using k par by (simp add: impulse_stage_nth)
  next
    case False
    then show ?thesis using k by (auto simp: impulse_stage_nth)
  qed
qed

lemma block_first:
  assumes "even L" "0 < L" "L \<le> 64" "\<bar>c\<bar> \<le> MAX_VALUE" "\<bar>wr\<bar> \<le> 1" "\<bar>wi\<bar> \<le> 1"
  shows "m \<le> L \<Longrightarrow>
         \<exists>cr ci. foldl (butterfly_d (2 * L) 0 (Num wr, Num wi))
                    ((Num 1, Num 0), impulse_stage c L) [0..<m]
                    = ((Num cr, Num ci), impulse_stage c (L + m)) \<and>
                  \<bar>cr\<bar> \<le> 2 ^ m \<and> \<bar>ci\<bar> \<le> 2 ^ m"
proof (induction m)
  case 0
  show ?case by simp
next
  case (Suc m)
  then obtain cr ci where st:
      "foldl (butterfly_d (2 * L) 0 (Num wr, Num wi)) ((Num 1, Num 0), impulse_stage c L) [0..<m]
         = ((Num cr, Num ci), impulse_stage c (L + m))" "\<bar>cr\<bar> \<le> 2 ^ m" "\<bar>ci\<bar> \<le> 2 ^ m"
    by auto
  define re where "re = fst (impulse_stage c (L + m))"
  define im where "im = snd (impulse_stage c (L + m))"
  have pair: "impulse_stage c (L + m) = (re, im)" by (simp add: re_def im_def)
  have m: "m < L" using Suc.prems by simp
  have hi: "L + m < 128" using m assms(3) by simp
  have h: "2 * L div 2 = L" by simp
  have z: "re ! (0 + m + 2 * L div 2) = Num 0" "im ! (0 + m + 2 * L div 2) = Num 0"
      "re ! (0 + m) = Num ((- 1) ^ m * c)" "im ! (0 + m) = Num 0"
    using hi m by (simp_all add: re_def im_def impulse_stage_nth add.commute)
  have fin: "\<bar>(- 1) ^ m * c\<bar> \<le> MAX_VALUE" "\<bar>0::real\<bar> \<le> MAX_VALUE"
    using assms(4) max_pos by (simp_all add: abs_mult power_abs)
  have "2 * (2::real) ^ m = 2 ^ Suc m" by simp
  also have "\<dots> \<le> MAX_VALUE" using m assms(3) by (intro pow_le_max) simp
  finally have b: "2 * (2::real) ^ m \<le> MAX_VALUE" .
  obtain cr' ci' where c:
      "num_sub (num_mul (Num cr) (Num wr)) (num_mul (Num ci) (Num wi)) = Num cr'"
      "num_add (num_mul (Num cr) (Num wi)) (num_mul (Num ci) (Num wr)) = Num ci'"
      "\<bar>cr'\<bar> \<le> 2 * 2 ^ m" "\<bar>ci'\<bar> \<le> 2 * 2 ^ m"
    using twiddle_step[OF st(2,3) assms(5,6) b] by blast
  have len: "0 + m + 2 * L div 2 < length re" "0 + m + 2 * L div 2 < length im"
    using hi by (simp_all add: re_def im_def impulse_stage_nth)
  have pos: "0 < 2 * L div 2" using assms(2) by simp
  have re': "re[0 + m + 2 * L div 2 := Num ((- 1) ^ m * c)] = fst (impulse_stage c (L + Suc m))"
    using impulse_stage_update[OF assms(1) m hi, of c] by (simp add: re_def add.commute)
  have im': "im[0 + m + 2 * L div 2 := Num 0] = snd (impulse_stage c (L + Suc m))"
    using hi by (simp add: im_def impulse_stage_def list_update_same_conv)
  have "butterfly_d (2 * L) 0 (Num wr, Num wi) ((Num cr, Num ci), re, im) m
          = ((Num cr', Num ci'), impulse_stage c (L + Suc m))"
    unfolding butterfly_d_zero[where cr = cr and ci = ci and w = "(Num wr, Num wi)",
        OF z fin pos len] re' im'
    using c(1,2) by simp
  then have "foldl (butterfly_d (2 * L) 0 (Num wr, Num wi))
               ((Num 1, Num 0), impulse_stage c L) [0..<Suc m]
               = ((Num cr', Num ci'), impulse_stage c (L + Suc m))"
    using st(1) pair by simp
  then show ?case using c(3,4) by auto
qed

lemma fft_block_d_first:
  assumes "even L" "0 < L" "L \<le> 64" "\<bar>c\<bar> \<le> MAX_VALUE" "\<bar>wr\<bar> \<le> 1" "\<bar>wi\<bar> \<le> 1"
  shows "fft_block_d (2 * L) (Num wr, Num wi) (impulse_stage c L) 0 = impulse_stage c (2 * L)"
  using block_first[OF assms, of L] by (auto simp: fft_block_d_def mult_2)

lemma fft_stage_d_impulse:
  assumes "even L" "0 < L" "nb * (2 * L) = 128" "\<bar>c\<bar> \<le> MAX_VALUE"
  shows "fft_stage_d (2 * L) 128 (impulse_stage c L) = impulse_stage c (2 * L)"
proof -
  define wr where "wr = cos (- 2 * pi / real (2 * L))"
  define wi where "wi = sin (- 2 * pi / real (2 * L))"
  have w: "\<bar>wr\<bar> \<le> 1" "\<bar>wi\<bar> \<le> 1" by (simp_all add: wr_def wi_def)
  have nb: "0 < nb" using assms(3) by (cases nb) simp_all
  have "2 * L \<le> nb * (2 * L)" using nb by simp
  then have L: "L \<le> 64" using assms(3) by simp
  have h: "2 * L div 2 = L" by simp
  have first: "fft_block_d (2 * L) (Num wr, Num wi) (impulse_stage c L) 0 = impulse_stage c (2 * L)"
    by (rule fft_block_d_first[OF assms(1,2) L assms(4) w])
  have rest: "foldl (fft_block_d (2 * L) (Num wr, Num wi))
                (fst (impulse_stage c (2 * L)), snd (impulse_stage c (2 * L)))
                (map (\<lambda>m. m * (2 * L)) [1..<nb])
              = (fst (impulse_stage c (2 * L)), snd (impulse_stage c (2 * L)))"
  proof (rule blocks_zero[where n = 128 and M = "2 * L"])
    show "\<forall>k. 2 * L \<le> k \<and> k < 128 \<longrightarrow>
            fst (impulse_stage c (2 * L)) ! k = Num 0 \<and> snd (impulse_stage c (2 * L)) ! k = Num 0"
      by (simp add: impulse_stage_nth)
    show "\<forall>i\<in>set (map (\<lambda>m. m * (2 * L)) [1..<nb]). 2 * L \<le> i \<and> i + 2 * (2 * L div 2) \<le> 128"
    proof
      fix i assume "i \<in> set (map (\<lambda>m. m * (2 * L)) [1..<nb])"
      then have "i \<in> (\<lambda>m. m * (2 * L)) ` {1..<nb}" by simp
      then obtain m where m0: "i = m * (2 * L)" "m \<in> {1..<nb}" by (rule imageE)
      then have m: "i = m * (2 * L)" "1 \<le> m" "m < nb" by simp_all
      have "Suc m * (2 * L) \<le> nb * (2 * L)" using m(3) by (intro mult_le_mono1) simp
      then have "i + 2 * L \<le> 128" using m(1) assms(3) by simp
      moreover have "1 * (2 * L) \<le> m * (2 * L)" using m(2) by (intro mult_le_mono1)
      ultimately show "2 * L \<le> i \<and> i + 2 * (2 * L div 2) \<le> 128" using m(1) by simp
    qed
  qed (simp_all add: impulse_stage_nth w L assms(2))
  have "map (\<lambda>m. m * (2 * L)) [0..<(128 + 2 * L - 1) div (2 * L)]
          = 0 # map (\<lambda>m. m * (2 * L)) [1..<nb]"
    using assms(2,3) by (intro block_starts) simp_all
  then show ?thesis
    unfolding fft_stage_d_def Let_def wr_def[symmetric] wi_def[symmetric]
    using first rest by simp
qed

text \<open>
  The first stage turns the pair \<open>(0, c)\<close> at indices 0 and 1 into \<open>(c, -c)\<close>.
\<close>

lemma replicate_update_same: "(replicate n x)[i := x] = replicate n x"
  by (induction n arbitrary: i) (simp_all split: nat.splits)

lemma fft_block_d_impulse:
  assumes "\<bar>c\<bar> \<le> MAX_VALUE"
  shows "fft_block_d 2 w ((replicate 128 (Num 0))[1 := Num c], replicate 128 (Num 0)) 0
           = impulse_stage c 2"
proof -
  have o: "overflow c = Num c" "overflow (- c) = Num (- c)"
    using assms by (simp_all add: overflow_Num)
  have re: "(replicate 128 (Num 0))[1 := Num (- c), 0 := Num c] = fst (impulse_stage c 2)"
  proof (rule nth_equalityI)
    fix k assume "k < length ((replicate 128 (Num 0))[1 := Num (- c), 0 := Num c])"
    then have k: "k < 128" by simp
    consider "k = 0" | "k = 1" | "2 \<le> k" by linarith
    then show "(replicate 128 (Num 0))[1 := Num (- c), 0 := Num c] ! k = fst (impulse_stage c 2) ! k"
      using k by cases (simp_all add: impulse_stage_nth)
  qed (simp add: impulse_stage_nth)
  have im: "(replicate 128 (Num 0))[1 := Num 0, 0 := Num 0] = snd (impulse_stage c 2)"
    by (simp add: impulse_stage_def replicate_update_same)
  have "fft_block_d 2 w ((replicate 128 (Num 0))[1 := Num c], replicate 128 (Num 0)) 0
          = ((replicate 128 (Num 0))[1 := Num (- c), 0 := Num c],
             (replicate 128 (Num 0))[1 := Num 0, 0 := Num 0])"
    by (simp add: fft_block_d_def butterfly_d_def Let_def num_sub_def o)
  then show ?thesis unfolding re im by simp
qed

lemma fft_stage_d_first:
  assumes "\<bar>c\<bar> \<le> MAX_VALUE"
  shows "fft_stage_d 2 128 ((replicate 128 (Num 0))[1 := Num c], replicate 128 (Num 0))
           = impulse_stage c 2"
proof -
  define wr where "wr = cos (- 2 * pi / real 2)"
  define wi where "wi = sin (- 2 * pi / real 2)"
  have w: "\<bar>wr\<bar> \<le> 1" "\<bar>wi\<bar> \<le> 1" unfolding wr_def wi_def by (rule abs_cos_le_one abs_sin_le_one)+
  have rest: "foldl (fft_block_d 2 (Num wr, Num wi))
                (fst (impulse_stage c 2), snd (impulse_stage c 2))
                (map (\<lambda>m. m * 2) [1..<64])
              = (fst (impulse_stage c 2), snd (impulse_stage c 2))"
  proof (rule blocks_zero[where n = 128 and M = 2])
    show "\<forall>k. 2 \<le> k \<and> k < 128 \<longrightarrow>
            fst (impulse_stage c 2) ! k = Num 0 \<and> snd (impulse_stage c 2) ! k = Num 0"
      by (simp add: impulse_stage_nth)
    show "\<forall>i\<in>set (map (\<lambda>m. m * 2) [1..<64]). 2 \<le> i \<and> i + 2 * (2 div 2) \<le> 128"
      by auto
  qed (simp_all add: impulse_stage_nth w)
  have "map (\<lambda>m. m * 2) [0..<(128 + 2 - 1) div 2] = 0 # map (\<lambda>m. m * 2) [1..<64]"
    by (intro block_starts) simp_all
  then show ?thesis
    unfolding fft_stage_d_def Let_def wr_def[symmetric] wi_def[symmetric]
    using fft_block_d_impulse[OF assms, of "(Num wr, Num wi)"] rest by simp
qed

lemma fft_d_impulse:
  assumes "\<bar>c\<bar> \<le> MAX_VALUE"
  shows "fft_stages_d 2 128 ((replicate 128 (Num 0))[1 := Num c], replicate 128 (Num 0))
           = Some (impulse_stage c 128)"
proof -
  have s: "fft_stage_d 4 128 (impulse_stage c 2) = impulse_stage c 4"
      "fft_stage_d 8 128 (impulse_stage c 4) = impulse_stage c 8"
      "fft_stage_d 16 128 (impulse_stage c 8) = impulse_stage c 16"
      "fft_stage_d 32 128 (impulse_stage c 16) = impulse_stage c 32"
      "fft_stage_d 64 128 (impulse_stage c 32) = impulse_stage c 64"
      "fft_stage_d 128 128 (impulse_stage c 64) = impulse_stage c 128"
    using fft_stage_d_impulse[of 2 32 c] fft_stage_d_impulse[of 4 16 c]
      fft_stage_d_impulse[of 8 8 c] fft_stage_d_impulse[of 16 4 c]
      fft_stage_d_impulse[of 32 2 c] fft_stage_d_impulse[of 64 1 c] assms
    by simp_all
  show ?thesis
    unfolding fft_stages_d_128 fft_stage_d_first[OF assms] s ..
qed

text \<open>
  The bit reversal swaps indices 1 and 64 in its first step; every later swap
  exchanges two entries at indices from 2 on, which are both 0.
\<close>

lemma xor_less_128: "x < 128 \<Longrightarrow> y < 128 \<Longrightarrow> xor x y < (128::nat)"
proof -
  assume "x < 128" "y < 128"
  then have "xor (int x) (int y) < 2 ^ 7"
    by (intro XOR_upper) simp_all
  then have "int (xor x y) < 128" by (simp add: of_nat_xor_eq)
  then show ?thesis by simp
qed

lemma bitrev_carry_less:
  "j < 128 \<Longrightarrow> bt < 128 \<Longrightarrow> xor (fst (bitrev_carry j bt)) (snd (bitrev_carry j bt)) < 128"
proof (induction j bt rule: bitrev_carry.induct)
  case (1 j bt)
  show ?case
  proof (cases "and j bt \<noteq> 0")
    case True
    have "xor j bt < 128" using 1(2,3) by (rule xor_less_128)
    moreover have "bt div 2 < 128" using 1(3) by simp
    ultimately show ?thesis
      using 1(1)[OF True] True by (subst (1 2) bitrev_carry.simps) simp
  next
    case False
    then show ?thesis
      using 1(2,3) by (subst (1 2) bitrev_carry.simps) (simp add: xor_less_128)
  qed
qed

lemma swap_d_same:
  "i < length xs \<Longrightarrow> j < length xs \<Longrightarrow> xs ! i = xs ! j \<Longrightarrow> swap_d xs i j = xs"
proof -
  assume "i < length xs" "j < length xs" and e: "xs ! i = xs ! j"
  have "swap_d xs i j = xs[i := xs ! i, j := xs ! j]"
    unfolding swap_d_def using e by simp
  then show ?thesis by simp
qed

lemma bitrev_step_d_zero:
  assumes "j < 128" "2 \<le> i" "i < 128"
  shows "\<exists>j'. bitrev_step_d 128 (j, (replicate 128 (Num 0))[1 := x], replicate 128 (Num 0)) i
               = (j', (replicate 128 (Num 0))[1 := x], replicate 128 (Num 0)) \<and> j' < 128"
proof -
  define j2 where "j2 = xor (fst (bitrev_carry j 64)) (snd (bitrev_carry j 64))"
  have j2: "j2 < 128" unfolding j2_def using assms(1) by (intro bitrev_carry_less) simp_all
  have step: "bitrev_step_d 128 (j, re, im) i
                = (if i < j2 then (j2, swap_d re i j2, swap_d im i j2) else (j2, re, im))"
    for re im :: "jsnum list"
    by (simp add: bitrev_step_d_def j2_def Let_def split: prod.splits)
  show ?thesis
  proof (cases "i < j2")
    case True
    have "swap_d ((replicate 128 (Num 0))[1 := x]) i j2 = (replicate 128 (Num 0))[1 := x]"
      using True assms(2,3) j2 by (intro swap_d_same) simp_all
    moreover have "swap_d (replicate 128 (Num 0)) i j2 = replicate 128 (Num 0)"
      using True assms(3) j2 by (intro swap_d_same) simp_all
    ultimately show ?thesis using True j2 by (simp add: step)
  next
    case False
    then show ?thesis using j2 by (simp add: step)
  qed
qed

lemma bitrev_rest:
  "j < 128 \<Longrightarrow> \<forall>i \<in> set bs. 2 \<le> i \<and> i < 128 \<Longrightarrow>
   snd (foldl (bitrev_step_d 128) (j, (replicate 128 (Num 0))[1 := x], replicate 128 (Num 0)) bs)
     = ((replicate 128 (Num 0))[1 := x], replicate 128 (Num 0))"
proof (induction bs arbitrary: j)
  case Nil
  show ?case by simp
next
  case (Cons i bs)
  have i: "2 \<le> i" "i < 128" using Cons.prems(2) by simp_all
  obtain j' where j': "bitrev_step_d 128 (j, (replicate 128 (Num 0))[1 := x], replicate 128 (Num 0)) i
               = (j', (replicate 128 (Num 0))[1 := x], replicate 128 (Num 0))" "j' < 128"
    using bitrev_step_d_zero[OF Cons.prems(1) i] by blast
  show ?case using Cons.IH[OF j'(2)] Cons.prems(2) j'(1) by simp
qed

lemma swap_d_impulse:
  "swap_d ((replicate 128 z)[64 := x]) 1 64 = (replicate 128 z)[1 := x]"
proof (rule nth_equalityI)
  show "length (swap_d ((replicate 128 z)[64 := x]) 1 64) = length ((replicate 128 z)[1 := x])"
    by (simp add: swap_d_def)
next
  fix k assume "k < length (swap_d ((replicate 128 z)[64 := x]) 1 64)"
  then have k: "k < 128" by (simp add: swap_d_def)
  consider "k = 1" | "k = 64" | "k \<noteq> 1 \<and> k \<noteq> 64" by blast
  then show "swap_d ((replicate 128 z)[64 := x]) 1 64 ! k = (replicate 128 z)[1 := x] ! k"
    using k by cases (simp_all add: swap_d_def nth_list_update)
qed

lemma bit_reversal_d_impulse:
  "bit_reversal_d 128 ((replicate 128 (Num 0))[64 := x], replicate 128 (Num 0))
     = ((replicate 128 (Num 0))[1 := x], replicate 128 (Num 0))"
proof -
  have c: "bitrev_carry 0 64 = (0, 64)" by (subst bitrev_carry.simps) simp
  have first: "bitrev_step_d 128 (0, (replicate 128 (Num 0))[64 := x], replicate 128 (Num 0)) 1
                 = (64, (replicate 128 (Num 0))[1 := x], replicate 128 (Num 0))"
    by (simp add: bitrev_step_d_def c swap_d_impulse swap_d_same del: One_nat_def)
  have u: "[1..<128] = 1 # [Suc 1..<128]" by (rule upt_conv_Cons) simp
  have "\<forall>i \<in> set [Suc 1..<128]. 2 \<le> i \<and> i < 128" by (simp del: upt_rec_numeral)
  then have "snd (foldl (bitrev_step_d 128)
               (64, (replicate 128 (Num 0))[1 := x], replicate 128 (Num 0)) [Suc 1..<128])
             = ((replicate 128 (Num 0))[1 := x], replicate 128 (Num 0))"
    by (intro bitrev_rest) simp
  then show ?thesis
    unfolding bit_reversal_d_def u foldl_Cons first .
qed

section \<open>Harmonic percentages of a finite total\<close>

text \<open>
  An amplitude is a number that is not negative, or \<open>Infinity\<close>.  When the total of
  the eleven amplitudes is a number other than 0, no amplitude is infinite, each share
  \<open>amplitude / total * 100\<close> is a number from 0 to 100, and the shares sum to 100
  (rounding aside).
\<close>

lemma scan_step_d_nonneg:
  "nonneg (fst st) \<Longrightarrow> nonneg (fst (scan_step_d mag st i))"
  by (cases "mag i"; cases "fst st") (auto simp: scan_step_d_def)

lemma peak_scan_d_nonneg: "nonneg (fst (peak_scan_d mag p lo hi))"
proof -
  have "nonneg (fst st) \<Longrightarrow> nonneg (fst (foldl (scan_step_d mag) st bs))" for st bs
    by (induction bs arbitrary: st) (simp_all add: scan_step_d_nonneg)
  then show ?thesis by (simp add: peak_scan_d_def)
qed

lemma finite_total:
  "\<forall>v \<in> set vs. nonneg v \<Longrightarrow> 0 \<le> s \<Longrightarrow> foldl num_add (Num s) vs = Num e \<Longrightarrow>
   \<exists>xs. vs = map Num xs \<and> (\<forall>x \<in> set xs. 0 \<le> x) \<and> e = s + sum_list xs"
proof (induction vs arbitrary: s)
  case Nil
  then show ?case by simp
next
  case (Cons v vs)
  have inf: "foldl num_add PosInf ws = PosInf" if "\<forall>w \<in> set ws. nonneg w" for ws
    using that
  proof (induction ws)
    case Nil
    show ?case by simp
  next
    case (Cons w ws)
    then show ?case by (cases w) simp_all
  qed
  have rest: "\<forall>w \<in> set vs. nonneg w" using Cons.prems(1) by simp
  show ?case
  proof (cases v)
    case (Num x)
    then have x: "0 \<le> x" using Cons.prems(1) by simp
    have nn: "\<not> s + x < - MAX_VALUE" using x Cons.prems(2) max_pos by linarith
    show ?thesis
    proof (cases "s + x > MAX_VALUE")
      case True
      then have "foldl num_add (Num s) (v # vs) = PosInf"
        using inf[OF rest] by (simp add: Num overflow_def)
      then show ?thesis using Cons.prems(3) by simp
    next
      case False
      then have "foldl num_add (Num (s + x)) vs = Num e"
        using Cons.prems(3) nn by (simp add: Num overflow_def)
      then obtain xs where "vs = map Num xs" "\<forall>x \<in> set xs. 0 \<le> x" "e = s + x + sum_list xs"
        using Cons.IH[OF rest, of "s + x"] x Cons.prems(2) by auto
      then show ?thesis using Num x by (intro exI[of _ "x # xs"]) simp
    qed
  next
    case PosInf
    then have "foldl num_add (Num s) (v # vs) = PosInf" using inf[OF rest] by simp
    then show ?thesis using Cons.prems(3) by simp
  next
    case NegInf
    then show ?thesis using Cons.prems(1) by simp
  next
    case NaN
    then show ?thesis using Cons.prems(1) by simp
  qed
qed

lemma share_of_total:
  assumes "0 \<le> x" "x \<le> e" "0 < e"
  shows "num_mul (num_div (Num x) (Num e)) (Num 100) = Num (x / e * 100)"
proof -
  have M: "(100::real) \<le> MAX_VALUE" by (simp add: MAX_VALUE_def)
  have q: "0 \<le> x / e" "x / e \<le> 1" using assms by simp_all
  then have "overflow (x / e) = Num (x / e)" using M by (intro overflow_Num) simp
  moreover have "overflow (x / e * 100) = Num (x / e * 100)"
  proof (rule overflow_Num)
    have "0 \<le> x / e * 100" using q(1) by (intro mult_nonneg_nonneg) simp_all
    moreover have "x / e * 100 \<le> 1 * 100" using q(2) by (intro mult_right_mono) simp_all
    ultimately show "\<bar>x / e * 100\<bar> \<le> MAX_VALUE" using M by simp
  qed
  ultimately show ?thesis using assms(3) by simp
qed

lemma harmonic_percentages_d_sum:
  assumes "fps \<noteq> 0"
    and "foldl num_add (Num 0)
           (map (harmonic_amplitude_d n a (fundBin_d n fps a)) [0..<11]) = Num e"
    and "e \<noteq> 0"
  shows "\<exists>ps. harmonic_percentages_d n fps a = Value (map Num ps) \<and> length ps = 11 \<and>
              sum_list ps = 100"
proof -
  define amps where "amps = map (harmonic_amplitude_d n a (fundBin_d n fps a)) [0..<11]"
  have nn: "\<forall>v \<in> set amps. nonneg v"
    by (auto simp: amps_def harmonic_amplitude_d_def Let_def peak_scan_d_nonneg simp del: upt_Suc)
  obtain xs where xs: "amps = map Num xs" "\<forall>x \<in> set xs. 0 \<le> x" "e = 0 + sum_list xs"
    using finite_total[OF nn, of 0 e] assms(2) by (auto simp: amps_def)
  have len: "length xs = 11"
  proof -
    have "length amps = 11" by (simp add: amps_def)
    then show ?thesis by (simp add: xs(1))
  qed
  have e: "0 < e"
  proof -
    have "0 \<le> sum_list xs" using xs(2) by (intro sum_list_nonneg) simp
    then show ?thesis using xs(3) assms(3) by simp
  qed
  have le: "x \<le> e" if "x \<in> set xs" for x
  proof -
    have "x \<le> sum_list xs" using that xs(2) by (intro member_le_sum_list) simp_all
    then show ?thesis using xs(3) by simp
  qed
  have shares: "map (\<lambda>amp. num_mul (num_div amp (Num e)) (Num 100)) amps
                  = map Num (map (\<lambda>x. x / e * 100) xs)"
  proof -
    have "num_mul (num_div (Num x) (Num e)) (Num 100) = Num (x / e * 100)" if "x \<in> set xs" for x
      using that xs(2) le e by (intro share_of_total) simp_all
    then show ?thesis unfolding xs(1) map_map by (intro map_cong) simp_all
  qed
  have "sum_list (map (\<lambda>x. x / e * 100) xs) = sum_list (map (\<lambda>x. x * (100 / e)) xs)"
    by (simp add: field_simps)
  also have "\<dots> = sum_list xs * (100 / e)"
    using sum_list_mult_const[of "\<lambda>x. x" "100 / e" xs] by simp
  finally have "sum_list (map (\<lambda>x. x / e * 100) xs) = sum_list xs / e * 100"
    by simp
  then have total: "sum_list (map (\<lambda>x. x / e * 100) xs) = 100" using xs(3) e by simp
  have "harmonic_percentages_d n fps a = Value (map Num (map (\<lambda>x. x / e * 100) xs))"
    using assms shares by (simp add: harmonic_percentages_d_def Let_def amps_def[symmetric] del: upt_Suc)
  then show ?thesis using total len by (intro exI[of _ "map (\<lambda>x. x / e * 100) xs"]) simp
qed

section \<open>Harmonic percentages of an impulse of large amplitude\<close>

text \<open>
  The Hann weight of sample 64 of 90 lies between 1/2 and 1, so the windowed sample is a
  finite double whose square is not: every bin of the transform has the power and the
  magnitude \<open>Infinity\<close>.
\<close>

lemma window_64: "1 / 2 \<le> 0.5 * (1 - cos (2 * pi * 64 / 89))" "0.5 * (1 - cos (2 * pi * 64 / 89)) \<le> 1"
proof -
  have "2 * pi * 64 / 89 = 39 * pi / 89 + pi" by simp
  then have "cos (2 * pi * 64 / 89) = - cos (39 * pi / 89)"
    by (simp only: cos_periodic_pi)
  moreover have "0 < cos (39 * pi / 89)"
  proof (rule cos_gt_zero_pi)
    show "- (pi / 2) < 39 * pi / 89" using pi_gt_zero by linarith
    show "39 * pi / 89 < pi / 2" using pi_gt_zero by linarith
  qed
  ultimately show "1 / 2 \<le> 0.5 * (1 - cos (2 * pi * 64 / 89))" by simp
  have "- 1 \<le> cos (2 * pi * 64 / 89)" by (rule cos_ge_minus_one)
  then show "0.5 * (1 - cos (2 * pi * 64 / 89)) \<le> 1" by simp
qed

lemma impulse_peak_bounds:
  "\<bar>impulse_peak\<bar> \<le> MAX_VALUE" "MAX_VALUE < impulse_peak * impulse_peak"
proof -
  define w where "w = 0.5 * (1 - cos (2 * pi * 64 / 89))"
  have w: "1 / 2 \<le> w" "w \<le> 1" unfolding w_def by (rule window_64)+
  have p: "impulse_peak = 10 ^ 200 * w" by (simp add: impulse_peak_def w_def)
  have "10 ^ 200 * w \<le> 10 ^ 200 * 1" using w(2) by (intro mult_left_mono) simp_all
  also have "(10::real) ^ 200 * 1 \<le> MAX_VALUE" by (simp add: MAX_VALUE_def)
  finally have "10 ^ 200 * w \<le> MAX_VALUE" .
  moreover have "0 \<le> 10 ^ 200 * w" using w(1) by simp
  ultimately show "\<bar>impulse_peak\<bar> \<le> MAX_VALUE" by (simp add: p)
  have "(10::real) ^ 200 * (1 / 2) \<le> 10 ^ 200 * w" using w(1) by (intro mult_left_mono) simp_all
  then have "(10 ^ 200 * (1 / 2)) * (10 ^ 200 * (1 / 2)) \<le> (10 ^ 200 * w) * (10 ^ 200 * w)"
    by (intro mult_mono) simp_all
  moreover have "MAX_VALUE < (10 ^ 200 * (1 / 2)) * (10 ^ 200 * (1 / 2))"
    by (simp add: MAX_VALUE_def)
  ultimately show "MAX_VALUE < impulse_peak * impulse_peak" by (simp only: p)
qed

lemma windowed_d_impulse:
  "windowed_d impulse_waveform 128
     = ((replicate 128 (Num 0))[64 := Num impulse_peak], replicate 128 (Num 0))"
proof -
  have len: "length impulse_waveform = 90" by (simp add: impulse_waveform_def)
  have o: "overflow impulse_peak = Num impulse_peak"
    using impulse_peak_bounds(1) by (rule overflow_Num)
  have "map (\<lambda>i. num_mul (Num (impulse_waveform ! i)) (hann_d 90 i)) [0..<90]
          @ replicate (128 - 90) (Num 0)
        = (replicate 128 (Num 0))[64 := Num impulse_peak]"
  proof (rule nth_equalityI)
    fix k
    assume "k < length (map (\<lambda>i. num_mul (Num (impulse_waveform ! i)) (hann_d 90 i)) [0..<90]
                          @ replicate (128 - 90) (Num 0))"
    then have k: "k < 128" by simp
    consider "k = 64" | "k < 90" "k \<noteq> 64" | "90 \<le> k" by linarith
    then show "(map (\<lambda>i. num_mul (Num (impulse_waveform ! i)) (hann_d 90 i)) [0..<90]
                  @ replicate (128 - 90) (Num 0)) ! k
               = (replicate 128 (Num 0))[64 := Num impulse_peak] ! k"
    proof cases
      case 1
      then show ?thesis
        using o by (simp add: nth_append impulse_waveform_def hann_d_def impulse_peak_def
            del: upt_rec_numeral)
    next
      case 2
      then show ?thesis
        by (simp add: nth_append impulse_waveform_def hann_d_def del: upt_rec_numeral)
    next
      case 3
      then show ?thesis using k by (simp add: nth_append del: upt_rec_numeral)
    qed
  qed (simp del: upt_rec_numeral)
  then show ?thesis by (simp add: windowed_d_def len del: upt_rec_numeral)
qed

lemma power_d_impulse:
  assumes "0 \<le> i" "i < 128"
  shows "power_d (impulse_stage impulse_peak 128) i = PosInf"
proof -
  have n: "nat i < 128" using assms by simp
  have "(- 1 :: real) ^ nat i * (- 1) ^ nat i = 1"
    by (simp flip: power_add mult_2)
  moreover have "((- 1) ^ nat i * impulse_peak) * ((- 1) ^ nat i * impulse_peak)
               = ((- 1) ^ nat i * (- 1) ^ nat i) * (impulse_peak * impulse_peak)"
    by (simp only: ac_simps)
  ultimately have sq: "((- 1) ^ nat i * impulse_peak) * ((- 1) ^ nat i * impulse_peak)
               = impulse_peak * impulse_peak" by (simp only: mult_1)
  have "overflow (((- 1) ^ nat i * impulse_peak) * ((- 1) ^ nat i * impulse_peak)) = PosInf"
    unfolding sq using impulse_peak_bounds(2) by (simp add: overflow_def)
  then show ?thesis
    using assms n by (simp add: power_d_def impulse_stage_nth)
qed

lemma mag_d_impulse:
  "0 \<le> i \<Longrightarrow> i < 128 \<Longrightarrow> mag_d (impulse_stage impulse_peak 128) i = PosInf"
  by (simp add: mag_d_def power_d_impulse)

lemma spectrum_d_impulse:
  "spectrum_d impulse_waveform 128 = Some (impulse_stage impulse_peak 128)"
  unfolding spectrum_d_def fft_d_def windowed_d_impulse bit_reversal_d_impulse
  by (rule fft_d_impulse[OF impulse_peak_bounds(1)])

lemma fundBin_d_impulse: "fundBin_d 128 30 (impulse_stage impulse_peak 128) = 3"
  by (simp add: fundBin_d_def peak_scan_d_def scan_step_d_def mag_d_impulse)

lemma harmonic_amplitude_d_impulse:
  "map (harmonic_amplitude_d 128 (impulse_stage impulse_peak 128) 3) [0..<11]
     = [PosInf, PosInf, PosInf, PosInf, PosInf, PosInf, PosInf, PosInf, PosInf, PosInf, PosInf]"
  by (simp add: upt_num upto.simps harmonic_amplitude_d_def peak_scan_d_def scan_step_d_def
      mag_d_impulse del: upt_Suc)

lemma harmonic_percentages_d_impulse:
  "harmonic_percentages_d 128 30 (impulse_stage impulse_peak 128)
     = Value [NaN, NaN, NaN, NaN, NaN, NaN, NaN, NaN, NaN, NaN, NaN]"
  unfolding harmonic_percentages_d_def Let_def fundBin_d_impulse harmonic_amplitude_d_impulse
  by simp

text \<open>
  Claim C7 fails on the ninety samples that are 0 except for sample 64, which is
  \<open>10^200\<close>, at 30 frames per second.  The signal has at least 90 samples; the eleven
  amplitudes are \<open>Infinity\<close> and so is their total, which is not zero, so the analysis
  returns a profile; each percentage is \<open>Infinity / Infinity * 100\<close>, a NaN, and the
  eleven percentages do not sum to 100.
\<close>

theorem pulseHarmonicAnalysis_percentages_NaN:
  "pulseHarmonicAnalysis_percentages impulse_waveform 30
     = Some (Value [NaN, NaN, NaN, NaN, NaN, NaN, NaN, NaN, NaN, NaN, NaN])"
proof -
  have "length impulse_waveform = 90" by (simp add: impulse_waveform_def)
  then show ?thesis
    by (simp add: pulseHarmonicAnalysis_percentages_def nextPow2_90 spectrum_d_impulse
        harmonic_percentages_d_impulse)
qed

end
